theory Spec2Isabelle
  imports Complex_Main "HOL-Library.Multiset" "HOL-Library.Char_ord" "HOL-Library.List_Lexorder"
begin

section \<open>Data model\<close>

text \<open>
  The task tracker of \<^verbatim>\<open>ProductivityScreen.tsx\<close>. The types \<^verbatim>\<open>Task\<close>, \<^verbatim>\<open>Subtask\<close> and
  \<^verbatim>\<open>NewTaskData\<close> are imported there from \<^verbatim>\<open>./firebaseDb\<close>; their fields are read off
  the way the screen uses them: the id of a task is a string, the id of a subtask a number,
  \<^verbatim>\<open>dueDate\<close>, \<^verbatim>\<open>importance\<close>, \<^verbatim>\<open>recurring\<close> and \<^verbatim>\<open>subtasks\<close> are optional
  (\<^verbatim>\<open>task.subtasks?.map\<close>, \<^verbatim>\<open>task.subtasks || []\<close>). A field name carries a prefix where
  the source's name is taken in HOL (\<^verbatim>\<open>id\<close>, \<^verbatim>\<open>text\<close>) or by a field of another record.
\<close>

text \<open>
  A string of the source is a sequence of UTF-16 code units. The texts that a user types
  are lists of code units, each given by its number, so that every character a text field
  can hold is there. Identifiers and dates, which the handlers compare or read digit by
  digit, are HOL strings.
\<close>

type_synonym ustring = "int list"

datatype Importance = low | medium | high

datatype RecurrenceFrequency = daily | weekly | monthly | yearly

text \<open>
  A value parsed from JSON. The text of a subtask is typed \<^verbatim>\<open>string\<close> in the source, but
  the breakdown operation stores whatever element the parsed response array holds, so the
  field holds a JSON value. Of a number only its being zero or not matters here.
\<close>

datatype jsval =
    JNull
  | JBool bool
  | JNum int
  | JStr string
  | JArr "jsval list"
  | JObj "(string \<times> jsval) list"

record Subtask =
  sub_id :: int
  sub_text :: jsval
  sub_completed :: bool

record Task =
  task_id :: string
  task_text :: ustring
  completed :: bool
  dueDate :: "string option"
  importance :: "Importance option"
  recurring :: "RecurrenceFrequency option"
  subtasks :: "Subtask list option"


section \<open>Calendar arithmetic of the Date object\<close>

text \<open>
  Months are numbered from 0 as \<^verbatim>\<open>getMonth\<close> numbers them. \<open>DayFromYear\<close> and \<open>MakeDay\<close>
  are the day numbers of ECMAScript (days since 1 January 1970).
\<close>

definition InLeapYear :: "int \<Rightarrow> bool" where
  "InLeapYear y = (y mod 4 = 0 \<and> (y mod 100 \<noteq> 0 \<or> y mod 400 = 0))"

definition DaysInMonth :: "int \<Rightarrow> int \<Rightarrow> int" where
  "DaysInMonth y m =
     (if m = 1 then (if InLeapYear y then 29 else 28)
      else if m = 3 \<or> m = 5 \<or> m = 8 \<or> m = 10 then 30
      else 31)"

definition DayFromYear :: "int \<Rightarrow> int" where
  "DayFromYear y =
     365 * (y - 1970) + (y - 1969) div 4 - (y - 1901) div 100 + (y - 1601) div 400"

text \<open>Days of the year \<open>y\<close> that lie before its month \<open>m\<close> (0 to 11).\<close>

definition DaysBeforeMonth :: "int \<Rightarrow> int \<Rightarrow> int" where
  "DaysBeforeMonth y m =
     (if m \<le> 0 then 0
      else if m = 1 then 31
      else (if InLeapYear y then 1 else 0) +
        (if m = 2 then 59 else if m = 3 then 90 else if m = 4 then 120
         else if m = 5 then 151 else if m = 6 then 181 else if m = 7 then 212
         else if m = 8 then 243 else if m = 9 then 273 else if m = 10 then 304
         else 334))"

definition MakeDay :: "int \<Rightarrow> int \<Rightarrow> int \<Rightarrow> int" where
  "MakeDay y m dt =
     DayFromYear (y + m div 12) + DaysBeforeMonth (y + m div 12) (m mod 12) + dt - 1"

text \<open>
  The calendar date that lies \<open>dt - 1\<close> days after the first day of month \<open>m\<close> (0 to 11)
  of year \<open>y\<close>: what \<^verbatim>\<open>getFullYear\<close>, \<^verbatim>\<open>getMonth\<close> and \<^verbatim>\<open>getDate\<close> read from the day
  \<open>MakeDay y m dt\<close>. A day of the month past the end of the month rolls over into the months
  that follow, a day below 1 into the months before.
\<close>

function civil_from :: "int \<Rightarrow> int \<Rightarrow> int \<Rightarrow> int \<times> int \<times> int" where
  "civil_from y m dt =
     (if dt < 1 then
        (if m = 0 then civil_from (y - 1) 11 (dt + DaysInMonth (y - 1) 11)
         else civil_from y (m - 1) (dt + DaysInMonth y (m - 1)))
      else if DaysInMonth y m < dt then
        (if m = 11 then civil_from (y + 1) 0 (dt - DaysInMonth y m)
         else civil_from y (m + 1) (dt - DaysInMonth y m))
      else (y, m, dt))"
  by pat_completeness auto
termination
  by (relation "measure (\<lambda>(y, m, dt). if dt < 1 then 32 + nat (1 - dt) else nat dt)")
     (auto simp: DaysInMonth_def)

declare civil_from.simps [simp del]

subsection \<open>Time values and the local time zone\<close>

text \<open>
  A \<^verbatim>\<open>Date\<close> holds a time value: milliseconds since 1 January 1970 00:00 UTC. The
  functions below are those of the ECMAScript specification. \<open>civil_of_day\<close> gives the year,
  month (0 to 11) and day of the month of a day number, which the specification calls
  \<^verbatim>\<open>YearFromTime\<close>, \<^verbatim>\<open>MonthFromTime\<close> and \<^verbatim>\<open>DateFromTime\<close>; it starts from a year near
  the day and lets \<open>civil_from\<close> count the months (lemma \<open>civil_of_day_unique\<close> shows that the
  result is the one date of the calendar with that day number).
\<close>

definition msPerDay :: int where
  "msPerDay = 86400000"

definition Day :: "int \<Rightarrow> int" where
  "Day t = t div msPerDay"

definition TimeWithinDay :: "int \<Rightarrow> int" where
  "TimeWithinDay t = t mod msPerDay"

definition MakeTime :: "int \<Rightarrow> int \<Rightarrow> int \<Rightarrow> int \<Rightarrow> int" where
  "MakeTime h m s ms = h * 3600000 + m * 60000 + s * 1000 + ms"

definition MakeDate :: "int \<Rightarrow> int \<Rightarrow> int" where
  "MakeDate day time = day * msPerDay + time"

definition civil_of_day :: "int \<Rightarrow> int \<times> int \<times> int" where
  "civil_of_day n =
     (let y = 1970 + n div 365 in civil_from y 0 (n - DayFromYear y + 1))"

definition YearFromTime :: "int \<Rightarrow> int" where
  "YearFromTime t = (case civil_of_day (Day t) of (y, m, d) \<Rightarrow> y)"

definition MonthFromTime :: "int \<Rightarrow> int" where
  "MonthFromTime t = (case civil_of_day (Day t) of (y, m, d) \<Rightarrow> m)"

definition DateFromTime :: "int \<Rightarrow> int" where
  "DateFromTime t = (case civil_of_day (Day t) of (y, m, d) \<Rightarrow> d)"

text \<open>
  The time zone of the host is a parameter. It is given by the two offsets of the
  specification, in milliseconds: \<open>LocalTZA_utc tz t\<close> is the offset of local time from UTC
  at the UTC time value \<open>t\<close> (\<^verbatim>\<open>LocalTZA(t, true)\<close>), and \<open>LocalTZA_local tz t\<close> is the
  offset with which the local time value \<open>t\<close> is read (\<^verbatim>\<open>LocalTZA(t, false)\<close>); for a
  local time that a transition skips or repeats this is the offset before the transition.
\<close>

record TimeZone =
  LocalTZA_utc :: "int \<Rightarrow> int"
  LocalTZA_local :: "int \<Rightarrow> int"

definition LocalTime :: "TimeZone \<Rightarrow> int \<Rightarrow> int" where
  "LocalTime tz t = t + LocalTZA_utc tz t"

definition UTC :: "TimeZone \<Rightarrow> int \<Rightarrow> int" where
  "UTC tz t = t - LocalTZA_local tz t"

text \<open>
  The getters and setters of a valid \<^verbatim>\<open>Date\<close>, on its time value. \<^verbatim>\<open>TimeClip\<close>, which
  turns a time value more than a hundred million days away from 1970 into \<^verbatim>\<open>NaN\<close>, is left out: the
  years of four digits are less than four million days away.
\<close>

definition getFullYear :: "TimeZone \<Rightarrow> int \<Rightarrow> int" where
  "getFullYear tz t = YearFromTime (LocalTime tz t)"

definition getMonth :: "TimeZone \<Rightarrow> int \<Rightarrow> int" where
  "getMonth tz t = MonthFromTime (LocalTime tz t)"

definition getDate :: "TimeZone \<Rightarrow> int \<Rightarrow> int" where
  "getDate tz t = DateFromTime (LocalTime tz t)"

definition setDate :: "TimeZone \<Rightarrow> int \<Rightarrow> int \<Rightarrow> int" where
  "setDate tz t dt =
     (let lt = LocalTime tz t;
          newDate = MakeDate (MakeDay (YearFromTime lt) (MonthFromTime lt) dt) (TimeWithinDay lt)
      in UTC tz newDate)"

definition setMonth :: "TimeZone \<Rightarrow> int \<Rightarrow> int \<Rightarrow> int" where
  "setMonth tz t m =
     (let lt = LocalTime tz t;
          newDate = MakeDate (MakeDay (YearFromTime lt) m (DateFromTime lt)) (TimeWithinDay lt)
      in UTC tz newDate)"

definition setFullYear :: "TimeZone \<Rightarrow> int \<Rightarrow> int \<Rightarrow> int" where
  "setFullYear tz t y =
     (let lt = LocalTime tz t;
          newDate = MakeDate (MakeDay y (MonthFromTime lt) (DateFromTime lt)) (TimeWithinDay lt)
      in UTC tz newDate)"

subsection \<open>Reading and writing date strings\<close>

definition is_digit :: "char \<Rightarrow> bool" where
  "is_digit c = (CHR ''0'' \<le> c \<and> c \<le> CHR ''9'')"

definition digit_value :: "char \<Rightarrow> int" where
  "digit_value c = int (of_char c) - 48"

definition digit_char :: "nat \<Rightarrow> char" where
  "digit_char n = char_of (48 + n)"

definition digits_value :: "string \<Rightarrow> int option" where
  "digits_value cs =
     (if cs \<noteq> [] \<and> list_all is_digit cs
      then Some (foldl (\<lambda>n c. 10 * n + digit_value c) 0 cs) else None)"

text \<open>
  The date part \<^verbatim>\<open>YYYY-MM-DD\<close> of a date-time string, as V8 (the engine of Chrome and Node)
  reads it: four digits, two digits from 01 to 12 and two digits from 01 to 31. The day is
  not checked against the length of the month: \<^verbatim>\<open>2024-02-30\<close> is read, and \<open>MakeDay\<close>
  counts its days past the end of February into March. Other engines reject such a string.
  A string of the form with another month or day, and every string of another shape, gives
  no date here (an invalid \<^verbatim>\<open>Date\<close>, whose fields read \<^verbatim>\<open>NaN\<close>). The month returned is
  1 to 12.
\<close>

definition parse_ymd :: "string \<Rightarrow> (int \<times> int \<times> int) option" where
  "parse_ymd s =
     (if length s = 10 \<and> s ! 4 = CHR ''-'' \<and> s ! 7 = CHR ''-'' then
        (case (digits_value (take 4 s), digits_value (take 2 (drop 5 s)),
               digits_value (take 2 (drop 8 s))) of
           (Some y, Some m, Some d) \<Rightarrow>
             if 1 \<le> m \<and> m \<le> 12 \<and> 1 \<le> d \<and> d \<le> 31
             then Some (y, m, d) else None
         | _ \<Rightarrow> None)
      else None)"

definition parse_hms :: "string \<Rightarrow> (int \<times> int \<times> int) option" where
  "parse_hms s =
     (if length s = 8 \<and> s ! 2 = CHR '':'' \<and> s ! 5 = CHR '':'' then
        (case (digits_value (take 2 s), digits_value (take 2 (drop 3 s)),
               digits_value (take 2 (drop 6 s))) of
           (Some h, Some mi, Some se) \<Rightarrow>
             if h \<le> 23 \<and> mi \<le> 59 \<and> se \<le> 59 then Some (h, mi, se) else None
         | _ \<Rightarrow> None)
      else None)"

text \<open>
  \<^verbatim>\<open>new Date(s)\<close> for a date-time string without offset, which is read as local time.
  The result is the time value, \<open>None\<close> for an invalid \<^verbatim>\<open>Date\<close>.
\<close>

definition new_Date :: "TimeZone \<Rightarrow> string \<Rightarrow> int option" where
  "new_Date tz s =
     (if length s = 19 \<and> s ! 10 = CHR ''T'' then
        (case (parse_ymd (take 10 s), parse_hms (drop 11 s)) of
           (Some (y, m, d), Some (h, mi, se)) \<Rightarrow>
             Some (UTC tz (MakeDate (MakeDay y (m - 1) d) (MakeTime h mi se 0)))
         | _ \<Rightarrow> None)
      else None)"

text \<open>
  \<^verbatim>\<open>new Date(s).getTime()\<close> for a date-only string, which is read as midnight UTC;
  \<open>None\<close> is \<^verbatim>\<open>NaN\<close>.
\<close>

definition getTime :: "string \<Rightarrow> int option" where
  "getTime s =
     (case parse_ymd s of
        Some (y, m, d) \<Rightarrow> Some (86400000 * MakeDay y (m - 1) d)
      | None \<Rightarrow> None)"

text \<open>Decimal digits of a number, as \<^verbatim>\<open>String(n)\<close> and a template literal write them.\<close>

function nat_digits :: "nat \<Rightarrow> string" where
  "nat_digits n = (if n < 10 then [digit_char n] else nat_digits (n div 10) @ [digit_char (n mod 10)])"
  by pat_completeness auto
termination
  by (relation "measure id") auto

declare nat_digits.simps [simp del]

definition String :: "int \<Rightarrow> string" where
  "String n = (if n < 0 then CHR ''-'' # nat_digits (nat (- n)) else nat_digits (nat n))"

definition padStart :: "nat \<Rightarrow> char \<Rightarrow> string \<Rightarrow> string" where
  "padStart n c s = replicate (n - length s) c @ s"

subsection \<open>calculateNextDueDate\<close>

text \<open>The \<^verbatim>\<open>switch\<close> on the frequency.\<close>

definition advance :: "TimeZone \<Rightarrow> RecurrenceFrequency \<Rightarrow> int \<Rightarrow> int" where
  "advance tz frequency date =
     (case frequency of
        daily \<Rightarrow> setDate tz date (getDate tz date + 1)
      | weekly \<Rightarrow> setDate tz date (getDate tz date + 7)
      | monthly \<Rightarrow> setMonth tz date (getMonth tz date + 1)
      | yearly \<Rightarrow> setFullYear tz date (getFullYear tz date + 1))"

text \<open>
  On an invalid \<^verbatim>\<open>Date\<close> every getter returns \<^verbatim>\<open>NaN\<close> and every setter leaves it
  invalid, so that the three parts of the result all read \<^verbatim>\<open>NaN\<close>.
\<close>

definition calculateNextDueDate :: "TimeZone \<Rightarrow> string \<Rightarrow> RecurrenceFrequency \<Rightarrow> string" where
  "calculateNextDueDate tz currentDateStr frequency =
     (case new_Date tz (currentDateStr @ ''T12:00:00'') of
        None \<Rightarrow> ''NaN-NaN-NaN''
      | Some date0 \<Rightarrow>
          (let date = advance tz frequency date0;
               year = getFullYear tz date;
               month = padStart 2 CHR ''0'' (String (getMonth tz date + 1));
               day = padStart 2 CHR ''0'' (String (getDate tz date))
           in String year @ ''-'' @ month @ ''-'' @ day))"

text \<open>Notions the statements about dates use.\<close>

definition day_of :: "int \<times> int \<times> int \<Rightarrow> int" where
  "day_of c = (case c of (y, m, d) \<Rightarrow> DayFromYear y + DaysBeforeMonth y m + d - 1)"

definition valid_civil :: "int \<times> int \<times> int \<Rightarrow> bool" where
  "valid_civil c = (case c of (y, m, d) \<Rightarrow> 0 \<le> m \<and> m \<le> 11 \<and> 1 \<le> d \<and> d \<le> DaysInMonth y m)"

text \<open>The local time value of 12:00:00 on the day of number \<open>n\<close>.\<close>

definition midday :: "int \<Rightarrow> int" where
  "midday n = MakeDate n (MakeTime 12 0 0 0)"

text \<open>
  A local time value exists in a time zone when the time value it is read as shows that
  local time again. It does not when a transition of the zone skips it.
\<close>

definition local_time_exists :: "TimeZone \<Rightarrow> int \<Rightarrow> bool" where
  "local_time_exists tz t = (LocalTime tz (UTC tz t) = t)"

text \<open>
  The day number that the setter called for a frequency aims at, from the day of number \<open>n\<close>:
  the date of that day with its day of the month, its month or its year increased.
\<close>

definition next_day_number :: "RecurrenceFrequency \<Rightarrow> int \<Rightarrow> int" where
  "next_day_number f n =
     (case civil_of_day n of (y, m, d) \<Rightarrow>
        (case f of
           daily \<Rightarrow> MakeDay y m (d + 1)
         | weekly \<Rightarrow> MakeDay y m (d + 7)
         | monthly \<Rightarrow> MakeDay y (m + 1) d
         | yearly \<Rightarrow> MakeDay (y + 1) m d))"

text \<open>A time zone whose offset never changes, and the zone of UTC itself.\<close>

definition fixed_zone :: "int \<Rightarrow> TimeZone" where
  "fixed_zone offset = \<lparr>LocalTZA_utc = (\<lambda>t. offset), LocalTZA_local = (\<lambda>t. offset)\<rparr>"

definition utc_zone :: TimeZone where
  "utc_zone = fixed_zone 0"

text \<open>
  The zone of Apia (Samoa) around the end of 2011, when it moved across the date line: local
  time was 10 hours behind UTC until 30 December 2011 10:00 UTC, the end of 29 December
  there, and 14 hours ahead from then on, which is the start of 31 December. The local day
  of 30 December does not exist; its times are read with the offset before the transition.
\<close>

definition apia_zone :: TimeZone where
  "apia_zone =
     \<lparr>LocalTZA_utc = (\<lambda>t. if t < MakeDate (MakeDay 2011 11 30) (MakeTime 10 0 0 0)
                          then - 36000000 else 50400000),
      LocalTZA_local = (\<lambda>t. if t < MakeDate (MakeDay 2011 11 31) 0
                            then - 36000000 else 50400000)\<rparr>"

text \<open>A number below 100 written with two decimal digits.\<close>

definition two_digits :: "int \<Rightarrow> string" where
  "two_digits k = [digit_char (nat k div 10), digit_char (nat k mod 10)]"


section \<open>Ordering of the task list\<close>

text \<open>
  \<^verbatim>\<open>Array.prototype.sort\<close> is stable, and for a comparator that is a consistent ordering its
  result is determined: the elements in ascending order, equal ones in their order of input.
  It is modelled by insertion from the right, which gives that result. The comparator's
  number is read by its sign only.
\<close>

fun insert_sorted :: "('a \<Rightarrow> 'a \<Rightarrow> int) \<Rightarrow> 'a \<Rightarrow> 'a list \<Rightarrow> 'a list" where
  "insert_sorted cmp x [] = [x]"
| "insert_sorted cmp x (y # ys) =
     (if cmp x y \<le> 0 then x # y # ys else y # insert_sorted cmp x ys)"

definition array_sort :: "('a \<Rightarrow> 'a \<Rightarrow> int) \<Rightarrow> 'a list \<Rightarrow> 'a list" where
  "array_sort cmp xs = foldr (insert_sorted cmp) xs []"

definition importanceOrder :: "Importance \<Rightarrow> int" where
  "importanceOrder i = (case i of high \<Rightarrow> 1 | medium \<Rightarrow> 2 | low \<Rightarrow> 3)"

text \<open>
  The due date when \<^verbatim>\<open>a.dueDate\<close> is truthy: an absent due date and the empty string both
  count as none.
\<close>

definition truthy_dueDate :: "Task \<Rightarrow> string option" where
  "truthy_dueDate a = (case dueDate a of None \<Rightarrow> None | Some s \<Rightarrow> if s = [] then None else Some s)"

text \<open>
  The block under \<^verbatim>\<open>if (!a.completed)\<close>: \<open>Some r\<close> when it returns \<open>r\<close>, \<open>None\<close> when control
  falls through to the comparison of ids. A difference of times that is \<^verbatim>\<open>NaN\<close> (a due date
  that does not parse) is returned as 0, which is how \<^verbatim>\<open>sort\<close> reads it.
\<close>

definition compare_incomplete :: "Task \<Rightarrow> Task \<Rightarrow> int option" where
  "compare_incomplete a b =
     (let aImportance = (case importance a of Some i \<Rightarrow> importanceOrder i | None \<Rightarrow> 4);
          bImportance = (case importance b of Some i \<Rightarrow> importanceOrder i | None \<Rightarrow> 4)
      in if aImportance \<noteq> bImportance then Some (aImportance - bImportance)
         else (case (truthy_dueDate a, truthy_dueDate b) of
                 (Some sa, None) \<Rightarrow> Some (- 1)
               | (None, Some sb) \<Rightarrow> Some 1
               | (Some sa, Some sb) \<Rightarrow>
                   (case (getTime sa, getTime sb) of
                      (Some ta, Some tb) \<Rightarrow> Some (ta - tb)
                    | _ \<Rightarrow> Some 0)
               | (None, None) \<Rightarrow> None))"

definition compare_id :: "Task \<Rightarrow> Task \<Rightarrow> int" where
  "compare_id a b =
     (if task_id a < task_id b then 1 else if task_id b < task_id a then - 1 else 0)"

definition compareTasks :: "Task \<Rightarrow> Task \<Rightarrow> int" where
  "compareTasks a b =
     (if completed a \<noteq> completed b then (if completed a then 1 else - 1)
      else if \<not> completed a then
        (case compare_incomplete a b of Some r \<Rightarrow> r | None \<Rightarrow> compare_id a b)
      else compare_id a b)"

definition sortTasks :: "Task list \<Rightarrow> Task list" where
  "sortTasks tasks = array_sort compareTasks tasks"


section \<open>The state of the screen and its handlers\<close>

text \<open>
  The component's state, as far as the task handlers read or write it (the countdown timer
  is left out). The persistence calls \<^verbatim>\<open>addTask\<close>, \<^verbatim>\<open>updateTask\<close> and \<^verbatim>\<open>deleteTask\<close> belong
  to a module outside the screen; the calls a handler issues are recorded in \<open>db_calls\<close>,
  oldest first, and are taken to succeed except where the source handles their failure.
  What \<^verbatim>\<open>console.error\<close> prints is not part of the state.
\<close>

datatype Position = Top | Bottom

record NewTaskData =
  new_text :: ustring
  new_completed :: bool
  new_dueDate :: "string option"
  new_importance :: "Importance option"
  new_recurring :: "RecurrenceFrequency option"
  new_subtasks :: "Subtask list option"

datatype db_call = AddTask NewTaskData | UpdateTask Task | DeleteTask string

record State =
  tasks :: "Task list"
  loadingTaskId :: "string option"
  focusedTaskId :: "string option"
  openMenuId :: "string option"
  isModalOpen :: bool
  editingTask :: "Task option"
  formText :: ustring
  formDueDate :: string
  formImportance :: "Importance option"
  formIsRecurring :: bool
  formRecurrenceFrequency :: RecurrenceFrequency
  dragOverInfo :: "(int \<times> Position) option"
  draggedSubtaskRef :: "(string \<times> Subtask) option"
  db_calls :: "db_call list"

text \<open>\<^verbatim>\<open>prev.map(t => t.id === id ? updatedTask : t)\<close>\<close>

definition replace_task :: "string \<Rightarrow> Task \<Rightarrow> Task list \<Rightarrow> Task list" where
  "replace_task i updatedTask prev = map (\<lambda>t. if task_id t = i then updatedTask else t) prev"

subsection \<open>handleSaveTask\<close>

text \<open>
  \<^verbatim>\<open>String.prototype.trim\<close> removes the white space and the line terminators of
  ECMAScript from both ends: tab, line feed, vertical tab, form feed, carriage return, the
  space, the no-break space U+00A0, U+1680, U+2000 to U+200A, the line and paragraph
  separators U+2028 and U+2029, U+202F, U+205F, U+3000 and the byte order mark U+FEFF.
\<close>

definition is_space :: "int \<Rightarrow> bool" where
  "is_space c =
     (c = 0x09 \<or> c = 0x0A \<or> c = 0x0B \<or> c = 0x0C \<or> c = 0x0D \<or> c = 0x20 \<or> c = 0xA0
      \<or> c = 0x1680 \<or> (0x2000 \<le> c \<and> c \<le> 0x200A) \<or> c = 0x2028 \<or> c = 0x2029
      \<or> c = 0x202F \<or> c = 0x205F \<or> c = 0x3000 \<or> c = 0xFEFF)"

definition trim :: "ustring \<Rightarrow> ustring" where
  "trim s = rev (dropWhile is_space (rev (dropWhile is_space s)))"

text \<open>
  Modelled from the spec: \<^verbatim>\<open>addTask\<close> of the persistence module, which is not among the
  sources. Creation assigns a fresh id and constructs the entity from the data given; the id
  the store assigns is a parameter.
\<close>

definition addTask :: "NewTaskData \<Rightarrow> string \<Rightarrow> Task" where
  "addTask d i =
     \<lparr>task_id = i, task_text = new_text d, completed = new_completed d,
      dueDate = new_dueDate d, importance = new_importance d,
      recurring = new_recurring d, subtasks = new_subtasks d\<rparr>"

text \<open>
  \<open>added\<close> is the outcome of \<^verbatim>\<open>addTask\<close>: the id assigned, or \<open>None\<close> when the call is
  rejected (the source logs that and adds nothing). It is read in the creating branch only.
\<close>

definition handleSaveTask :: "State \<Rightarrow> string option \<Rightarrow> State" where
  "handleSaveTask s added =
     (if trim (formText s) = [] then s
      else
        (case editingTask s of
           Some editing \<Rightarrow>
             (let updatedTask0 = editing
                    \<lparr>task_text := formText s,
                     dueDate := (if formDueDate s = [] then None else Some (formDueDate s)),
                     importance := formImportance s,
                     recurring := (if formIsRecurring s then Some (formRecurrenceFrequency s)
                                   else None)\<rparr>;
                  updatedTask = (if formIsRecurring s then updatedTask0\<lparr>completed := False\<rparr>
                                 else updatedTask0)
              in s\<lparr>db_calls := db_calls s @ [UpdateTask updatedTask],
                    tasks := sortTasks (replace_task (task_id editing) updatedTask (tasks s)),
                    isModalOpen := False\<rparr>)
         | None \<Rightarrow>
             (let newTaskData =
                    \<lparr>new_text = formText s, new_completed = False,
                     new_dueDate = (if formDueDate s = [] then None else Some (formDueDate s)),
                     new_importance = formImportance s,
                     new_recurring = (if formIsRecurring s then Some (formRecurrenceFrequency s)
                                      else None),
                     new_subtasks = Some []\<rparr>
              in (case added of
                    Some i \<Rightarrow>
                      s\<lparr>db_calls := db_calls s @ [AddTask newTaskData],
                        tasks := sortTasks (addTask newTaskData i # tasks s),
                        isModalOpen := False\<rparr>
                  | None \<Rightarrow>
                      s\<lparr>db_calls := db_calls s @ [AddTask newTaskData],
                        isModalOpen := False\<rparr>))))"

subsection \<open>handleToggleTask\<close>

text \<open>
  \<open>today\<close> is what \<^verbatim>\<open>new Date().toISOString().split('T')[0]\<close> gives when the handler runs:
  the current date in UTC. \<open>tz\<close> is the time zone of the host, in which
  \<open>calculateNextDueDate\<close> reads and writes dates.
\<close>

definition handleToggleTask :: "TimeZone \<Rightarrow> State \<Rightarrow> Task \<Rightarrow> string \<Rightarrow> State" where
  "handleToggleTask tz s task today =
     (case recurring task of
        Some frequency \<Rightarrow>
          if \<not> completed task then
            (let nextDueDate = calculateNextDueDate tz
                    (case truthy_dueDate task of Some d \<Rightarrow> d | None \<Rightarrow> today) frequency;
                 resetSubtasks = map_option (map (\<lambda>st. st\<lparr>sub_completed := False\<rparr>)) (subtasks task);
                 updatedTask = task\<lparr>dueDate := Some nextDueDate, subtasks := resetSubtasks\<rparr>
             in s\<lparr>tasks := sortTasks (replace_task (task_id task) updatedTask (tasks s)),
                   db_calls := db_calls s @ [UpdateTask updatedTask],
                   openMenuId := None\<rparr>)
          else
            (let updatedTask = task\<lparr>completed := \<not> completed task\<rparr>
             in s\<lparr>tasks := sortTasks (replace_task (task_id task) updatedTask (tasks s)),
                   db_calls := db_calls s @ [UpdateTask updatedTask],
                   openMenuId := None\<rparr>)
      | None \<Rightarrow>
          (let updatedTask = task\<lparr>completed := \<not> completed task\<rparr>
           in s\<lparr>tasks := sortTasks (replace_task (task_id task) updatedTask (tasks s)),
                 db_calls := db_calls s @ [UpdateTask updatedTask],
                 openMenuId := None\<rparr>))"

subsection \<open>handleToggleSubtask\<close>

definition handleToggleSubtask :: "State \<Rightarrow> string \<Rightarrow> int \<Rightarrow> State" where
  "handleToggleSubtask s taskId subtaskId =
     (case find (\<lambda>t. task_id t = taskId) (tasks s) of
        None \<Rightarrow> s
      | Some taskToUpdate \<Rightarrow>
          (case subtasks taskToUpdate of
             None \<Rightarrow> s
           | Some subs \<Rightarrow>
               (let updatedSubtasks =
                      map (\<lambda>st. if sub_id st = subtaskId
                                 then st\<lparr>sub_completed := \<not> sub_completed st\<rparr> else st) subs;
                    updatedTask = taskToUpdate\<lparr>subtasks := Some updatedSubtasks\<rparr>
                in s\<lparr>tasks := replace_task taskId updatedTask (tasks s),
                      db_calls := db_calls s @ [UpdateTask updatedTask]\<rparr>)))"

subsection \<open>handleDeleteTask\<close>

definition handleDeleteTask :: "State \<Rightarrow> string \<Rightarrow> State" where
  "handleDeleteTask s i =
     s\<lparr>focusedTaskId := (if focusedTaskId s = Some i then None else focusedTaskId s),
       tasks := filter (\<lambda>t. task_id t \<noteq> i) (tasks s),
       db_calls := db_calls s @ [DeleteTask i],
       openMenuId := None\<rparr>"

text \<open>\<^verbatim>\<open>focusedTask\<close>, the memoised lookup of the focused task.\<close>

definition focusedTask :: "State \<Rightarrow> Task option" where
  "focusedTask s = find (\<lambda>t. Some (task_id t) = focusedTaskId s) (tasks s)"


subsection \<open>handleBreakdownTask\<close>

text \<open>
  The text-generation service and \<^verbatim>\<open>JSON.parse\<close> are outside the screen. What they give
  is a parameter: the call throws, the text of the response is not JSON, or it parses to a
  value.
\<close>

datatype Response = TransportError | ParseError | Parsed jsval

text \<open>The shape the response is expected to have: an object whose \<^verbatim>\<open>subtasks\<close> is an array of strings.\<close>

definition is_JStr :: "jsval \<Rightarrow> bool" where
  "is_JStr v = (case v of JStr s \<Rightarrow> True | _ \<Rightarrow> False)"

text \<open>Reading a property of a parsed object: of a repeated key \<^verbatim>\<open>JSON.parse\<close> keeps the last value.\<close>

definition get_property :: "(string \<times> jsval) list \<Rightarrow> string \<Rightarrow> jsval option" where
  "get_property kvs k = map_of (rev kvs) k"

definition matches_schema :: "jsval \<Rightarrow> bool" where
  "matches_schema v =
     (case v of
        JObj kvs \<Rightarrow>
          (case get_property kvs ''subtasks'' of
             Some (JArr xs) \<Rightarrow> list_all is_JStr xs
           | _ \<Rightarrow> False)
      | _ \<Rightarrow> False)"

text \<open>
  \<^verbatim>\<open>result.subtasks\<close>: reading a property of \<^verbatim>\<open>null\<close> throws (\<open>None\<close>); a value that is
  not an object has no such property, and an object may lack it (\<open>Some None\<close>, the value
  \<^verbatim>\<open>undefined\<close>).
\<close>

definition read_subtasks :: "jsval \<Rightarrow> jsval option option" where
  "read_subtasks result =
     (case result of
        JNull \<Rightarrow> None
      | JObj kvs \<Rightarrow> Some (get_property kvs ''subtasks'')
      | _ \<Rightarrow> Some None)"

text \<open>\<^verbatim>\<open>v || []\<close>: the empty array when \<open>v\<close> is falsy.\<close>

definition or_empty_array :: "jsval option \<Rightarrow> jsval" where
  "or_empty_array v =
     (case v of
        None \<Rightarrow> JArr []
      | Some JNull \<Rightarrow> JArr []
      | Some (JBool b) \<Rightarrow> if b then JBool b else JArr []
      | Some (JNum n) \<Rightarrow> if n = 0 then JArr [] else JNum n
      | Some (JStr c) \<Rightarrow> if c = [] then JArr [] else JStr c
      | Some w \<Rightarrow> w)"

text \<open>
  The test \<^verbatim>\<open>subtaskTexts.length > 0\<close> and the call of \<^verbatim>\<open>subtaskTexts.map\<close>: \<open>Some xs\<close> when
  the callback runs over the array \<open>xs\<close>, \<open>None\<close> when nothing is mapped. Nothing is mapped
  for an empty array (the test fails), for a number or a boolean (they have no length, and
  the test fails), for a string (the test holds for a non-empty one, but \<^verbatim>\<open>map\<close> is not a
  function and the call throws) and for an object (the test fails, or the call throws since
  a value parsed from JSON is never a function); every throw is caught by the handler.
\<close>

definition mapped_texts :: "jsval \<Rightarrow> jsval list option" where
  "mapped_texts subtaskTexts =
     (case subtaskTexts of
        JArr xs \<Rightarrow> if length xs > 0 then Some xs else None
      | _ \<Rightarrow> None)"

definition subtaskTexts :: "jsval \<Rightarrow> jsval list option" where
  "subtaskTexts result =
     (case read_subtasks result of
        None \<Rightarrow> None
      | Some v \<Rightarrow> mapped_texts (or_empty_array v))"

text \<open>
  The callback of \<^verbatim>\<open>map\<close>; \<open>now i\<close> is what \<^verbatim>\<open>Date.now()\<close> reads when the callback runs for
  index \<open>i\<close>.
\<close>

definition newSubtasks :: "(nat \<Rightarrow> int) \<Rightarrow> jsval list \<Rightarrow> Subtask list" where
  "newSubtasks now xs =
     map (\<lambda>(index, subtaskText).
            \<lparr>sub_id = now index + int index, sub_text = subtaskText, sub_completed = False\<rparr>)
         (zip [0 ..< length xs] xs)"

definition handleBreakdownTask :: "State \<Rightarrow> Task \<Rightarrow> Response \<Rightarrow> (nat \<Rightarrow> int) \<Rightarrow> State" where
  "handleBreakdownTask s task response now =
     (let s1 = s\<lparr>openMenuId := None, loadingTaskId := Some (task_id task)\<rparr>;
          s2 = (case response of
                  TransportError \<Rightarrow> s1
                | ParseError \<Rightarrow> s1
                | Parsed result \<Rightarrow>
                    (case subtaskTexts result of
                       None \<Rightarrow> s1
                     | Some xs \<Rightarrow>
                         (let updatedTask = task
                                \<lparr>subtasks := Some ((case subtasks task of Some old \<Rightarrow> old | None \<Rightarrow> [])
                                                    @ newSubtasks now xs)\<rparr>
                          in s1\<lparr>tasks := sortTasks (replace_task (task_id task) updatedTask (tasks s1)),
                                 db_calls := db_calls s1 @ [UpdateTask updatedTask]\<rparr>)))
      in s2\<lparr>loadingTaskId := None\<rparr>)"

subsection \<open>handleSubtaskDrop\<close>

text \<open>\<^verbatim>\<open>findIndex\<close>: the index of the first element that satisfies the test, or -1.\<close>

fun findIndex :: "('a \<Rightarrow> bool) \<Rightarrow> 'a list \<Rightarrow> int" where
  "findIndex P [] = - 1"
| "findIndex P (x # xs) = (if P x then 0 else (let i = findIndex P xs in if i < 0 then - 1 else i + 1))"

text \<open>
  \<^verbatim>\<open>splice\<close>: a negative start counts from the end, and the start is clamped to the array.
  \<open>splice_delete1\<close> is \<^verbatim>\<open>splice(start, 1)\<close>: the elements removed and the array left;
  \<open>splice_insert\<close> is \<^verbatim>\<open>splice(start, 0, item)\<close>.
\<close>

definition splice_start :: "int \<Rightarrow> 'a list \<Rightarrow> nat" where
  "splice_start start xs =
     (if start < 0 then nat (max (int (length xs) + start) 0) else nat (min start (int (length xs))))"

definition splice_delete1 :: "int \<Rightarrow> 'a list \<Rightarrow> 'a list \<times> 'a list" where
  "splice_delete1 start xs =
     (let k = splice_start start xs in (take 1 (drop k xs), take k xs @ drop (k + 1) xs))"

definition splice_insert :: "int \<Rightarrow> 'a \<Rightarrow> 'a list \<Rightarrow> 'a list" where
  "splice_insert start item xs =
     (let k = splice_start start xs in take k xs @ item # drop k xs)"

text \<open>
  When the array of subtasks is empty nothing is removed and \<^verbatim>\<open>movedItem\<close> is
  \<^verbatim>\<open>undefined\<close>, which the source then stores in the array; a list of subtasks cannot
  hold it, so that outcome is a value of its own.
\<close>

datatype drop_error = MovedItemUndefined

definition handleSubtaskDrop :: "State \<Rightarrow> string \<Rightarrow> Subtask \<Rightarrow> drop_error + State" where
  "handleSubtaskDrop s targetTaskId targetSubtask =
     (case draggedSubtaskRef s of
        None \<Rightarrow> Inr s
      | Some (sourceTaskId, sourceSubtask) \<Rightarrow>
          if sourceTaskId \<noteq> targetTaskId \<or> sub_id sourceSubtask = sub_id targetSubtask then Inr s
          else
            (case find (\<lambda>t. task_id t = targetTaskId) (tasks s) of
               None \<Rightarrow> Inr s
             | Some taskToUpdate \<Rightarrow>
                 (case subtasks taskToUpdate of
                    None \<Rightarrow> Inr s
                  | Some subs \<Rightarrow>
                      (let sourceIndex = findIndex (\<lambda>st. sub_id st = sub_id sourceSubtask) subs;
                           targetIndex = findIndex (\<lambda>st. sub_id st = sub_id targetSubtask) subs;
                           (removed, rest) = splice_delete1 sourceIndex subs;
                           adjustedTargetIndex =
                             (if targetIndex > sourceIndex then targetIndex - 1 else targetIndex)
                       in (case removed of
                             [] \<Rightarrow> Inl MovedItemUndefined
                           | movedItem # _ \<Rightarrow>
                               (let subs' =
                                      (if map_option snd (dragOverInfo s) = Some Top
                                       then splice_insert adjustedTargetIndex movedItem rest
                                       else splice_insert (adjustedTargetIndex + 1) movedItem rest);
                                    updatedTask = taskToUpdate\<lparr>subtasks := Some subs'\<rparr>
                                in Inr (s\<lparr>tasks := replace_task targetTaskId updatedTask (tasks s),
                                          db_calls := db_calls s @ [UpdateTask updatedTask],
                                          dragOverInfo := None\<rparr>)))))))"


section \<open>The shopping list\<close>

text \<open>
  \<^verbatim>\<open>SupermarketScreen.tsx\<close>. A JavaScript number is \<^verbatim>\<open>NaN\<close>, an infinity or a finite
  double, which is held as the rational it denotes (the sign of zero is not held: no
  operation here tells the two zeros apart). The product of two finite doubles is their exact
  product rounded to a double, which is an infinity when the exact product is too large and
  zero when it is too small. The rounding is a parameter, \<open>to_double\<close>; the special values
  multiply and compare as IEEE 754 has it.
\<close>

datatype jsnum = NaN | PosInf | NegInf | Finite rat

definition isNaN :: "jsnum \<Rightarrow> bool" where
  "isNaN x = (x = NaN)"

definition js_sign :: "jsnum \<Rightarrow> int" where
  "js_sign x = (case x of NaN \<Rightarrow> 0 | PosInf \<Rightarrow> 1 | NegInf \<Rightarrow> - 1
                | Finite r \<Rightarrow> (if r < 0 then - 1 else if r = 0 then 0 else 1))"

definition js_mul :: "(rat \<Rightarrow> jsnum) \<Rightarrow> jsnum \<Rightarrow> jsnum \<Rightarrow> jsnum" where
  "js_mul to_double x y =
     (case (x, y) of
        (Finite a, Finite b) \<Rightarrow> to_double (a * b)
      | _ \<Rightarrow> if x = NaN \<or> y = NaN \<or> js_sign x * js_sign y = 0 then NaN
             else if js_sign x * js_sign y > 0 then PosInf else NegInf)"

text \<open>\<^verbatim>\<open>x < y\<close>, \<^verbatim>\<open>x <= y\<close> and \<^verbatim>\<open>x == y\<close> on numbers: false whenever an operand is \<^verbatim>\<open>NaN\<close>.\<close>

definition js_less :: "jsnum \<Rightarrow> jsnum \<Rightarrow> bool" where
  "js_less x y =
     (case (x, y) of
        (NaN, _) \<Rightarrow> False
      | (_, NaN) \<Rightarrow> False
      | (Finite a, Finite b) \<Rightarrow> a < b
      | (NegInf, NegInf) \<Rightarrow> False
      | (NegInf, _) \<Rightarrow> True
      | (_, NegInf) \<Rightarrow> False
      | (PosInf, _) \<Rightarrow> False
      | (_, PosInf) \<Rightarrow> True)"

definition js_eq :: "jsnum \<Rightarrow> jsnum \<Rightarrow> bool" where
  "js_eq x y = (x \<noteq> NaN \<and> x = y)"

definition js_le :: "jsnum \<Rightarrow> jsnum \<Rightarrow> bool" where
  "js_le x y = (js_less x y \<or> js_eq x y)"

record ListItem =
  item_id :: int
  item_text :: ustring
  item_completed :: bool
  quantity :: "jsnum option"
  unitPrice :: "jsnum option"
  totalPrice :: "jsnum option"

text \<open>
  The state of the screen. The two fields of the pricing dialog are named \<^verbatim>\<open>quantity\<close> and
  \<^verbatim>\<open>unitPrice\<close> in the source, as the fields of an item are; here they carry a suffix.
\<close>

record ShopState =
  items :: "ListItem list"
  inputValue :: ustring
  modalItem :: "ListItem option"
  quantity_field :: string
  unitPrice_field :: string

text \<open>\<^verbatim>\<open>s.replace(',', '.')\<close> replaces the first comma only.\<close>

fun replace_comma :: "string \<Rightarrow> string" where
  "replace_comma [] = []"
| "replace_comma (c # cs) = (if c = CHR '','' then CHR ''.'' # cs else c # replace_comma cs)"

text \<open>
  \<^verbatim>\<open>parseFloat\<close> and the \<^verbatim>\<open>toString\<close> of a number are built in; they are parameters of the
  handlers that call them, as the rounding of a product is.
\<close>

definition modalItemTotal :: "(rat \<Rightarrow> jsnum) \<Rightarrow> (string \<Rightarrow> jsnum) \<Rightarrow> ShopState \<Rightarrow> jsnum" where
  "modalItemTotal to_double parseFloat s =
     (let q = parseFloat (replace_comma (quantity_field s));
          p = parseFloat (replace_comma (unitPrice_field s))
      in if \<not> isNaN q \<and> js_less (Finite 0) q \<and> \<not> isNaN p \<and> js_le (Finite 0) p
         then js_mul to_double q p else Finite 0)"

text \<open>\<open>now\<close> is what \<^verbatim>\<open>Date.now()\<close> reads.\<close>

definition handleAddItem :: "ShopState \<Rightarrow> int \<Rightarrow> ShopState" where
  "handleAddItem s now =
     (if trim (inputValue s) = [] then s
      else
        (let newItem = \<lparr>item_id = now, item_text = inputValue s, item_completed = False,
                        quantity = None, unitPrice = None, totalPrice = None\<rparr>
         in s\<lparr>items := newItem # items s, inputValue := []\<rparr>))"

definition handleCheckmarkClick :: "(jsnum \<Rightarrow> string) \<Rightarrow> ShopState \<Rightarrow> ListItem \<Rightarrow> ShopState" where
  "handleCheckmarkClick toString s item =
     (if item_completed item then
        (let updatedItem = item\<lparr>item_completed := False, quantity := None, unitPrice := None,
                                totalPrice := None\<rparr>
         in s\<lparr>items := map (\<lambda>i. if item_id i = item_id item then updatedItem else i) (items s)\<rparr>)
      else
        s\<lparr>modalItem := Some item,
          quantity_field := (case quantity item of
                               Some q \<Rightarrow> if toString q = [] then ''1'' else toString q
                             | None \<Rightarrow> ''1''),
          unitPrice_field := (case unitPrice item of Some p \<Rightarrow> toString p | None \<Rightarrow> [])\<rparr>)"

definition handleModalConfirm :: "(rat \<Rightarrow> jsnum) \<Rightarrow> (string \<Rightarrow> jsnum) \<Rightarrow> ShopState \<Rightarrow> ShopState" where
  "handleModalConfirm to_double parseFloat s =
     (case modalItem s of
        None \<Rightarrow> s
      | Some m \<Rightarrow>
          if js_le (modalItemTotal to_double parseFloat s) (Finite 0) then s
          else
            (let updatedItem = m
                   \<lparr>item_completed := True,
                    quantity := Some (parseFloat (replace_comma (quantity_field s))),
                    unitPrice := Some (parseFloat (replace_comma (unitPrice_field s))),
                    totalPrice := Some (modalItemTotal to_double parseFloat s)\<rparr>
             in s\<lparr>items := map (\<lambda>item. if item_id item = item_id m then updatedItem else item) (items s),
                   modalItem := None, quantity_field := ''1'', unitPrice_field := []\<rparr>))"

definition handleDeleteItem :: "ShopState \<Rightarrow> int \<Rightarrow> ShopState" where
  "handleDeleteItem s i = s\<lparr>items := filter (\<lambda>item. item_id item \<noteq> i) (items s)\<rparr>"

text \<open>\<open>cleared\<close> tells whether \<^verbatim>\<open>clearAllItems\<close> succeeded; when it fails the list is kept.\<close>

definition confirmClearList :: "ShopState \<Rightarrow> bool \<Rightarrow> ShopState" where
  "confirmClearList s cleared = (if cleared then s\<lparr>items := []\<rparr> else s)"

text \<open>
  The invariant of an item that the data model states; \<^verbatim>\<open>==\<close> and the product are those of
  the source's numbers.
\<close>

definition item_invariant :: "(rat \<Rightarrow> jsnum) \<Rightarrow> ListItem \<Rightarrow> bool" where
  "item_invariant to_double i =
     (((quantity i \<noteq> None \<and> unitPrice i \<noteq> None \<and> totalPrice i \<noteq> None) = item_completed i)
      \<and> (case (quantity i, unitPrice i) of
            (Some q, Some p) \<Rightarrow>
              (case totalPrice i of Some t \<Rightarrow> js_eq t (js_mul to_double q p) | None \<Rightarrow> False)
          | _ \<Rightarrow> True))"


section \<open>Notions of the statements\<close>

text \<open>
  A task whose due date, when it has one, is read as a date. On lists of such tasks the
  comparator is a consistent ordering, given by the key below: completion, rank of
  importance, due time, id.
\<close>

definition wellformed_dueDate :: "Task \<Rightarrow> bool" where
  "wellformed_dueDate t = (case truthy_dueDate t of Some s \<Rightarrow> getTime s \<noteq> None | None \<Rightarrow> True)"

definition sort_key :: "Task \<Rightarrow> bool \<times> int \<times> int option \<times> string" where
  "sort_key t =
     (completed t,
      (case importance t of Some i \<Rightarrow> importanceOrder i | None \<Rightarrow> 4),
      (case truthy_dueDate t of Some s \<Rightarrow> getTime s | None \<Rightarrow> None),
      task_id t)"

definition compare_keys :: "bool \<times> int \<times> int option \<times> string \<Rightarrow> bool \<times> int \<times> int option \<times> string \<Rightarrow> int" where
  "compare_keys ka kb =
     (case (ka, kb) of
        ((ca, ia, da, na), (cb, ib, db, nb)) \<Rightarrow>
          if ca \<noteq> cb then (if ca then 1 else - 1)
          else if \<not> ca \<and> ia \<noteq> ib then ia - ib
          else if \<not> ca \<and> da \<noteq> None \<and> db = None then - 1
          else if \<not> ca \<and> da = None \<and> db \<noteq> None then 1
          else if \<not> ca \<and> da \<noteq> None \<and> db \<noteq> None then the da - the db
          else if na < nb then 1 else if nb < na then - 1 else 0)"

text \<open>
  The invariant of the task list that a recurring task is never left completed.
\<close>

definition recurring_active :: "Task \<Rightarrow> bool" where
  "recurring_active t = (recurring t \<noteq> None \<longrightarrow> \<not> completed t)"

definition all_recurring_active :: "Task list \<Rightarrow> bool" where
  "all_recurring_active ts = (\<forall>t \<in> set ts. recurring_active t)"

text \<open>
  The invariant of the data model for every item of the shopping list.
\<close>

definition all_items_invariant :: "(rat \<Rightarrow> jsnum) \<Rightarrow> ListItem list \<Rightarrow> bool" where
  "all_items_invariant to_double xs = (\<forall>i \<in> set xs. item_invariant to_double i)"

text \<open>
  The list \<open>xs\<close> with its element at index \<open>ia\<close> taken out and put back next to the element
  that was at index \<open>ib\<close>: before it when \<open>before\<close> holds, after it otherwise.
\<close>

definition reorder :: "bool \<Rightarrow> nat \<Rightarrow> nat \<Rightarrow> 'a list \<Rightarrow> 'a list" where
  "reorder before ia ib xs =
     (let rest = take ia xs @ drop (Suc ia) xs;
          k = (if ia < ib then ib - 1 else ib);
          n = (if before then k else Suc k)
      in take n rest @ xs ! ia # drop n rest)"

subsection \<open>Values for the examples\<close>

text \<open>The code units of a string of ASCII characters.\<close>

definition units :: "string \<Rightarrow> ustring" where
  "units s = map of_char s"

definition ex_subtask :: "int \<Rightarrow> bool \<Rightarrow> Subtask" where
  "ex_subtask i c = \<lparr>sub_id = i, sub_text = JStr ''step'', sub_completed = c\<rparr>"

definition ex_task :: "string \<Rightarrow> bool \<Rightarrow> string option \<Rightarrow> Task" where
  "ex_task i c d =
     \<lparr>task_id = i, task_text = units ''t'', completed = c, dueDate = d, importance = None,
      recurring = None, subtasks = Some []\<rparr>"

definition ex_recurring :: "bool \<Rightarrow> Subtask list \<Rightarrow> Task" where
  "ex_recurring c ss =
     \<lparr>task_id = ''x'', task_text = units ''rent'', completed = c, dueDate = Some ''2024-01-15'',
      importance = Some high, recurring = Some monthly, subtasks = Some ss\<rparr>"

definition ex_state :: "Task list \<Rightarrow> State" where
  "ex_state ts =
     \<lparr>tasks = ts, loadingTaskId = None, focusedTaskId = None, openMenuId = None,
      isModalOpen = False, editingTask = None, formText = [], formDueDate = [],
      formImportance = None, formIsRecurring = False, formRecurrenceFrequency = monthly,
      dragOverInfo = None, draggedSubtaskRef = None, db_calls = []\<rparr>"

definition ex_item :: "int \<Rightarrow> ListItem" where
  "ex_item i = \<lparr>item_id = i, item_text = units ''rice'', item_completed = False,
                quantity = None, unitPrice = None, totalPrice = None\<rparr>"

text \<open>
  A stand-in for \<^verbatim>\<open>parseFloat\<close> that agrees with it on the strings of the examples.
\<close>

definition ex_parseFloat :: "string \<Rightarrow> jsnum" where
  "ex_parseFloat s =
     (if s = ''3'' then Finite 3 else if s = ''2.50'' then Finite 2.5
      else if s = ''Infinity'' then PosInf else if s = ''0'' then Finite 0 else NaN)"

text \<open>
  The pricing dialog, open for the item 1 of a list of two, with 3 and 2,50 typed in; and
  the same dialog holding the quantity \<^verbatim>\<open>Infinity\<close> and the unit price 0.
\<close>

definition ex_shop :: ShopState where
  "ex_shop = \<lparr>items = [ex_item 2, ex_item 1], inputValue = [], modalItem = Some (ex_item 1),
              quantity_field = ''3'', unitPrice_field = ''2,50''\<rparr>"

definition ex_shop_infinity :: ShopState where
  "ex_shop_infinity = ex_shop\<lparr>quantity_field := ''Infinity'', unitPrice_field := ''0''\<rparr>"


section \<open>Properties of the calendar arithmetic\<close>

lemma DaysInMonth_bounds: "28 \<le> DaysInMonth y m" "DaysInMonth y m \<le> 31"
  by (auto simp: DaysInMonth_def)

lemma div_step:
  fixes a k :: int
  assumes "0 < k"
  shows "(a + 1) div k = a div k + (if (a + 1) mod k = 0 then 1 else 0)"
proof (cases "a mod k + 1 = k")
  case True
  have "a + 1 = k * (a div k) + (a mod k + 1)" by simp
  also have "\<dots> = k * (a div k + 1) + 0" using True by (simp add: algebra_simps)
  finally have "a + 1 = k * (a div k + 1) + 0" .
  then have "(a + 1) div k = a div k + 1" "(a + 1) mod k = 0"
    using assms int_div_pos_eq[of "a + 1" k "a div k + 1" 0] int_mod_pos_eq[of "a + 1" k "a div k + 1" 0]
    by simp_all
  then show ?thesis by simp
next
  case False
  have r: "0 \<le> a mod k" "a mod k < k" using assms by simp_all
  have e: "a + 1 = k * (a div k) + (a mod k + 1)" by simp
  have "(a + 1) div k = a div k"
    using assms r False int_div_pos_eq[OF e] by simp
  moreover have "(a + 1) mod k = a mod k + 1"
    using assms r False int_mod_pos_eq[OF e] by simp
  ultimately show ?thesis using r by simp
qed

lemma mod_shift: "(y - k * c) mod k = (y::int) mod k"
  by (metis mod_mult_self2 diff_conv_add_uminus mult_minus_right)

lemma mod_400_100: "(y::int) mod 400 = 0 \<Longrightarrow> y mod 100 = 0"
proof -
  assume "y mod 400 = 0"
  then have "400 dvd y" by (simp add: dvd_eq_mod_eq_0)
  moreover have "(100::int) dvd 400" by simp
  ultimately have "100 dvd y" using dvd_trans by blast
  then show ?thesis by (simp add: dvd_eq_mod_eq_0)
qed

lemma mod_100_4: "(y::int) mod 100 = 0 \<Longrightarrow> y mod 4 = 0"
proof -
  assume "y mod 100 = 0"
  then have "100 dvd y" by (simp add: dvd_eq_mod_eq_0)
  moreover have "(4::int) dvd 100" by simp
  ultimately have "4 dvd y" using dvd_trans by blast
  then show ?thesis by (simp add: dvd_eq_mod_eq_0)
qed


lemma div4_step: "((y::int) - 1968) div 4 = (y - 1969) div 4 + (if y mod 4 = 0 then 1 else 0)"
    using div_step[of 4 "y - 1969"] mod_shift[of y 4 492] by simp

lemma div100_step: "((y::int) - 1900) div 100 = (y - 1901) div 100 + (if y mod 100 = 0 then 1 else 0)"
    using div_step[of 100 "y - 1901"] mod_shift[of y 100 19] by simp
lemma div400_step: "((y::int) - 1600) div 400 = (y - 1601) div 400 + (if y mod 400 = 0 then 1 else 0)"
    using div_step[of 400 "y - 1601"] mod_shift[of y 400 4] by simp
lemma DayFromYear_next: "DayFromYear (y + 1) =
      365 * (y - 1969) + (y - 1968) div 4 - (y - 1900) div 100 + (y - 1600) div 400"
    by (simp add: DayFromYear_def)

lemma leap_sum:
  fixes y A B C :: int
  assumes "p400 \<Longrightarrow> p100" "p100 \<Longrightarrow> p4"
  shows "365 * (y - 1969) + (A + (if p4 then 1 else 0)) - (B + (if p100 then 1 else 0))
           + (C + (if p400 then 1 else 0))
       = 365 * (y - 1970) + A - B + C + (if p4 \<and> (\<not> p100 \<or> p400) then 366 else 365)"
  using assms by (cases p4; cases p100; cases p400; simp)

lemma DayFromYear_Suc: "DayFromYear (y + 1) = DayFromYear y + (if InLeapYear y then 366 else 365)"
proof -
  have "DayFromYear (y + 1) =
      365 * (y - 1969) + ((y - 1969) div 4 + (if y mod 4 = 0 then 1 else 0))
        - ((y - 1901) div 100 + (if y mod 100 = 0 then 1 else 0))
        + ((y - 1601) div 400 + (if y mod 400 = 0 then 1 else 0))"
    unfolding DayFromYear_next div4_step div100_step div400_step ..
  also have "\<dots> = 365 * (y - 1970) + (y - 1969) div 4 - (y - 1901) div 100 + (y - 1601) div 400
        + (if y mod 4 = 0 \<and> (\<not> y mod 100 = 0 \<or> y mod 400 = 0) then 366 else 365)"
    by (rule leap_sum) (erule mod_400_100, erule mod_100_4)
  finally show ?thesis
    unfolding DayFromYear_def InLeapYear_def .
qed

lemma DaysBeforeMonth_Suc:
  assumes "0 \<le> m" "m < 11"
  shows "DaysBeforeMonth y (m + 1) = DaysBeforeMonth y m + DaysInMonth y m"
proof -
  from assms have "m = 0 \<or> m = 1 \<or> m = 2 \<or> m = 3 \<or> m = 4 \<or> m = 5 \<or> m = 6 \<or> m = 7 \<or> m = 8 \<or> m = 9 \<or> m = 10"
    by arith
  then show ?thesis
    by (elim disjE) (simp_all add: DaysBeforeMonth_def DaysInMonth_def)
qed

lemma DaysBeforeMonth_last: "DayFromYear y + DaysBeforeMonth y 11 + DaysInMonth y 11 = DayFromYear (y + 1)"
  by (simp add: DayFromYear_Suc DaysBeforeMonth_def DaysInMonth_def)

lemma DaysBeforeMonth_0: "DaysBeforeMonth y 0 = 0"
  by (simp add: DaysBeforeMonth_def)

lemma civil_from_day:
  "0 \<le> m \<Longrightarrow> m \<le> 11 \<Longrightarrow>
     valid_civil (civil_from y m dt) \<and> day_of (civil_from y m dt) = day_of (y, m, dt)"
proof (induction y m dt rule: civil_from.induct)
  case (1 y m dt)
  show ?case
  proof (cases "dt < 1")
    case True
    show ?thesis
    proof (cases "m = 0")
      case m0: True
      have "civil_from y m dt = civil_from (y - 1) 11 (dt + DaysInMonth (y - 1) 11)"
        using True m0 by (subst civil_from.simps) simp
      moreover have "day_of (y - 1, 11, dt + DaysInMonth (y - 1) 11) = day_of (y, m, dt)"
        using DaysBeforeMonth_last[of "y - 1"] m0 by (simp add: day_of_def DaysBeforeMonth_0)
      ultimately show ?thesis using "1.IH"(1)[OF True m0] by simp
    next
      case m1: False
      have "civil_from y m dt = civil_from y (m - 1) (dt + DaysInMonth y (m - 1))"
        using True m1 by (subst civil_from.simps) simp
      moreover have "day_of (y, m - 1, dt + DaysInMonth y (m - 1)) = day_of (y, m, dt)"
        using DaysBeforeMonth_Suc[of "m - 1" y] m1 "1.prems" by (simp add: day_of_def)
      ultimately show ?thesis using "1.IH"(2)[OF True m1] "1.prems" m1 by simp
    qed
  next
    case False
    show ?thesis
    proof (cases "DaysInMonth y m < dt")
      case big: True
      show ?thesis
      proof (cases "m = 11")
        case m11: True
        have "civil_from y m dt = civil_from (y + 1) 0 (dt - DaysInMonth y m)"
          using False big m11 by (subst civil_from.simps) simp
        moreover have "day_of (y + 1, 0, dt - DaysInMonth y m) = day_of (y, m, dt)"
          using DaysBeforeMonth_last[of y] m11 by (simp add: day_of_def DaysBeforeMonth_0)
        ultimately show ?thesis using "1.IH"(3)[OF False big m11] by simp
      next
        case m10: False
        have "civil_from y m dt = civil_from y (m + 1) (dt - DaysInMonth y m)"
          using False big m10 by (subst civil_from.simps) simp
        moreover have "day_of (y, m + 1, dt - DaysInMonth y m) = day_of (y, m, dt)"
          using DaysBeforeMonth_Suc[of m y] m10 "1.prems" by (simp add: day_of_def)
        ultimately show ?thesis using "1.IH"(4)[OF False big m10] "1.prems" m10 by simp
      qed
    next
      case small: False
      have "civil_from y m dt = (y, m, dt)"
        using False small by (subst civil_from.simps) simp
      then show ?thesis using False small "1.prems" by (simp add: valid_civil_def)
    qed
  qed
qed

subsection \<open>A date of the calendar is determined by its day number\<close>

lemma DayFromYear_le:
  assumes "y \<le> y'"
  shows "DayFromYear y + 365 * (y' - y) \<le> DayFromYear y'"
  using assms
proof (induction y' rule: int_ge_induct)
  case base
  show ?case by simp
next
  case (step i)
  have "DayFromYear i + 365 \<le> DayFromYear (i + 1)" by (simp add: DayFromYear_Suc)
  then show ?case using step by (simp add: algebra_simps)
qed

lemma DaysBeforeMonth_mono:
  assumes "0 \<le> m" "m < m'" "m' \<le> 11"
  shows "DaysBeforeMonth y m + DaysInMonth y m \<le> DaysBeforeMonth y m'"
  using assms(2,1,3)
proof (induction m' rule: int_gr_induct)
  case base
  then show ?case by (simp add: DaysBeforeMonth_Suc)
next
  case (step i)
  have "DaysBeforeMonth y (i + 1) = DaysBeforeMonth y i + DaysInMonth y i"
    using step by (intro DaysBeforeMonth_Suc) simp_all
  moreover have "0 \<le> DaysInMonth y i" using DaysInMonth_bounds(1)[of y i] by simp
  ultimately show ?case using step by simp
qed

lemma day_of_year_bounds:
  assumes "valid_civil (y, m, d)"
  shows "DayFromYear y \<le> day_of (y, m, d)" "day_of (y, m, d) < DayFromYear (y + 1)"
proof -
  have v: "0 \<le> m" "m \<le> 11" "1 \<le> d" "d \<le> DaysInMonth y m"
    using assms by (simp_all add: valid_civil_def)
  have "0 \<le> DaysBeforeMonth y m"
  proof (cases "m = 0")
    case True
    then show ?thesis by (simp add: DaysBeforeMonth_def)
  next
    case False
    then have "DaysBeforeMonth y 0 + DaysInMonth y 0 \<le> DaysBeforeMonth y m"
      using v by (intro DaysBeforeMonth_mono) simp_all
    then show ?thesis using DaysInMonth_bounds(1)[of y 0] by (simp add: DaysBeforeMonth_0)
  qed
  then show "DayFromYear y \<le> day_of (y, m, d)" using v by (simp add: day_of_def)
  have "DaysBeforeMonth y m + DaysInMonth y m \<le> DaysBeforeMonth y 11 + DaysInMonth y 11"
  proof (cases "m = 11")
    case True
    then show ?thesis by simp
  next
    case False
    then have "DaysBeforeMonth y m + DaysInMonth y m \<le> DaysBeforeMonth y 11"
      using v by (intro DaysBeforeMonth_mono) simp_all
    then show ?thesis using DaysInMonth_bounds(1)[of y 11] by simp
  qed
  then show "day_of (y, m, d) < DayFromYear (y + 1)"
    using v DaysBeforeMonth_last[of y] by (simp add: day_of_def)
qed

lemma day_of_inj:
  assumes "valid_civil c" "valid_civil c'" "day_of c = day_of c'"
  shows "c = c'"
proof -
  obtain y m d where c: "c = (y, m, d)" by (cases c)
  obtain y' m' d' where c': "c' = (y', m', d')" by (cases c')
  note b = day_of_year_bounds[OF assms(1)[unfolded c]] day_of_year_bounds[OF assms(2)[unfolded c']]
  have v: "0 \<le> m" "m \<le> 11" "1 \<le> d" "d \<le> DaysInMonth y m"
    "0 \<le> m'" "m' \<le> 11" "1 \<le> d'" "d' \<le> DaysInMonth y' m'"
    using assms(1,2) by (simp_all add: valid_civil_def c c')
  have e: "day_of (y, m, d) = day_of (y', m', d')" using assms(3) by (simp add: c c')
  have yy: "y = y'"
  proof (rule ccontr)
    assume "y \<noteq> y'"
    then consider "y + 1 \<le> y'" | "y' + 1 \<le> y" by linarith
    then show False
    proof cases
      case 1
      then have "DayFromYear (y + 1) \<le> DayFromYear y'" using DayFromYear_le[of "y + 1" y'] by simp
      then show False using b e by simp
    next
      case 2
      then have "DayFromYear (y' + 1) \<le> DayFromYear y" using DayFromYear_le[of "y' + 1" y] by simp
      then show False using b e by simp
    qed
  qed
  have e2: "DaysBeforeMonth y m + d = DaysBeforeMonth y m' + d'"
    using e yy by (simp add: day_of_def)
  have mm: "m = m'"
  proof (rule ccontr)
    assume "m \<noteq> m'"
    then consider "m < m'" | "m' < m" by linarith
    then show False
    proof cases
      case 1
      then have "DaysBeforeMonth y m + DaysInMonth y m \<le> DaysBeforeMonth y m'"
        using v by (intro DaysBeforeMonth_mono) simp_all
      then show False using e2 v by simp
    next
      case 2
      then have "DaysBeforeMonth y m' + DaysInMonth y m' \<le> DaysBeforeMonth y m"
        using v by (intro DaysBeforeMonth_mono) simp_all
      then show False using e2 v yy by simp
    qed
  qed
  show ?thesis using yy mm e2 by (simp add: c c')
qed

lemma civil_from_unique:
  assumes "0 \<le> m" "m \<le> 11" "valid_civil c" "day_of c = day_of (y, m, dt)"
  shows "civil_from y m dt = c"
  using civil_from_day[OF assms(1,2), of y dt] assms(3,4) day_of_inj by simp

subsection \<open>Decimal digits\<close>

lemma of_char_digit_char: "k < 10 \<Longrightarrow> of_char (digit_char k) = (48 + k :: nat)"
  by (simp add: digit_char_def)

lemma is_digit_digit_char: "k < 10 \<Longrightarrow> is_digit (digit_char k)"
  unfolding is_digit_def less_eq_char_def by (simp add: of_char_digit_char)

lemma digit_value_digit_char: "k < 10 \<Longrightarrow> digit_value (digit_char k) = int k"
  by (simp add: digit_value_def of_char_digit_char)

lemma nat_digits_small: "n < 10 \<Longrightarrow> nat_digits n = [digit_char n]"
  by (subst nat_digits.simps) simp

lemma nat_digits_step: "10 \<le> n \<Longrightarrow> nat_digits n = nat_digits (n div 10) @ [digit_char (n mod 10)]"
  by (subst nat_digits.simps) simp

lemma nat_digits_all_digit: "list_all is_digit (nat_digits n)"
proof (induction n rule: nat_digits.induct)
  case (1 n)
  show ?case
  proof (cases "n < 10")
    case True
    then show ?thesis by (simp add: nat_digits_small is_digit_digit_char)
  next
    case False
    then show ?thesis using 1 by (simp add: nat_digits_step is_digit_digit_char)
  qed
qed

lemma nat_digits_nonempty: "nat_digits n \<noteq> []"
  by (subst nat_digits.simps) simp

lemma div_mod_int10: "10 * int (n div 10) + int (n mod 10) = int n"
  by presburger

lemma nat_digits_foldl: "foldl (\<lambda>n c. 10 * n + digit_value c) 0 (nat_digits n) = int n"
proof (induction n rule: nat_digits.induct)
  case (1 n)
  show ?case
  proof (cases "n < 10")
    case True
    then show ?thesis by (simp add: nat_digits_small digit_value_digit_char)
  next
    case False
    have "10 * int (n div 10) + int (n mod 10) = int n" by presburger
    then show ?thesis using False 1 by (simp add: nat_digits_step digit_value_digit_char)
  qed
qed

lemma digits_value_nat_digits: "digits_value (nat_digits n) = Some (int n)"
  by (simp add: digits_value_def nat_digits_all_digit nat_digits_nonempty nat_digits_foldl)

lemma length_nat_digits_2: "10 \<le> n \<Longrightarrow> n < 100 \<Longrightarrow> length (nat_digits n) = 2"
  by (simp add: nat_digits_step nat_digits_small)

lemma length_nat_digits_3: "100 \<le> n \<Longrightarrow> n < 1000 \<Longrightarrow> length (nat_digits n) = 3"
  by (simp add: nat_digits_step[of n] length_nat_digits_2)

lemma length_nat_digits_4: "1000 \<le> n \<Longrightarrow> n < 10000 \<Longrightarrow> length (nat_digits n) = 4"
  by (simp add: nat_digits_step[of n] length_nat_digits_3)

lemma length_nat_digits_ge5: "10000 \<le> n \<Longrightarrow> 5 \<le> length (nat_digits n)"
proof (induction n rule: nat_digits.induct)
  case (1 n)
  show ?case
  proof (cases "n < 100000")
    case True
    then have "1000 \<le> n div 10" "n div 10 < 10000" using 1(2) by simp_all
    then show ?thesis using 1(2) by (simp add: nat_digits_step[of n] length_nat_digits_4)
  next
    case False
    then have "10000 \<le> n div 10" by simp
    then show ?thesis using 1 False by (simp add: nat_digits_step[of n])
  qed
qed


lemma padStart_two_digits:
  assumes "0 \<le> k" "k \<le> 99"
  shows "padStart 2 CHR ''0'' (String k) = two_digits k"
proof (cases "k < 10")
  case True
  then have "nat k < 10" using assms by simp
  then have "nat k div 10 = 0" "nat k mod 10 = nat k" by simp_all
  moreover have "digit_char 0 = CHR ''0''" by code_simp
  ultimately show ?thesis using assms True
    by (simp add: padStart_def String_def two_digits_def nat_digits_small)
next
  case False
  then have a: "10 \<le> nat k" "nat k < 100" using assms by simp_all
  then have "nat k div 10 < 10" by simp
  then show ?thesis using assms False a
    by (simp add: padStart_def String_def two_digits_def nat_digits_step nat_digits_small)
qed

lemma digits_value_two_digits:
  assumes "0 \<le> k" "k \<le> 99"
  shows "digits_value (two_digits k) = Some k"
proof -
  have a: "nat k div 10 < 10" "nat k mod 10 < 10" using assms by simp_all
  have "10 * int (nat k div 10) + int (nat k mod 10) = int (nat k)" by (rule div_mod_int10)
  then show ?thesis using assms a
    by (simp add: digits_value_def two_digits_def is_digit_digit_char digit_value_digit_char)
qed

lemma parse_ymd_format:
  assumes "1000 \<le> y" "y \<le> 9999" "1 \<le> m" "m \<le> 12" "1 \<le> d" "d \<le> 31"
  shows "parse_ymd (String y @ ''-'' @ two_digits m @ ''-'' @ two_digits d) = Some (y, m, d)"
proof -
  have ly: "length (String y) = 4"
    using assms by (simp add: String_def length_nat_digits_4)
  have vy: "digits_value (String y) = Some y"
    using assms by (simp add: String_def digits_value_nat_digits)
  have d31: "d \<le> 31" using assms(6) by simp
  have vm: "digits_value (two_digits m) = Some m" and vd: "digits_value (two_digits d) = Some d"
    using assms d31 by (simp_all add: digits_value_two_digits)
  have l2: "length (two_digits m) = 2" "length (two_digits d) = 2"
    by (simp_all add: two_digits_def)
  show ?thesis
    unfolding parse_ymd_def using ly vy vm vd l2 assms
    by (simp add: nth_append)
qed

subsection \<open>Day numbers and time values\<close>

lemma parse_ymd_SomeD:
  assumes "parse_ymd s = Some (y, m, d)"
  shows "length s = 10" "1 \<le> m" "m \<le> 12" "1 \<le> d" "d \<le> 31"
  using assms unfolding parse_ymd_def
  by (auto split: if_splits option.splits)

lemma parse_hms_midday: "parse_hms ''12:00:00'' = Some (12, 0, 0)"
  by code_simp

lemma new_Date_midday:
  assumes "parse_ymd s = Some (y, m, d)"
  shows "new_Date tz (s @ ''T12:00:00'') = Some (UTC tz (midday (MakeDay y (m - 1) d)))"
proof -
  have l: "length s = 10" using assms by (rule parse_ymd_SomeD)
  then have "take 10 (s @ ''T12:00:00'') = s" "drop 11 (s @ ''T12:00:00'') = ''12:00:00''"
    "(s @ ''T12:00:00'') ! 10 = CHR ''T''"
    by (simp_all add: nth_append)
  then show ?thesis
    using l assms by (simp add: new_Date_def parse_hms_midday midday_def)
qed

lemma MakeDay_day_of: "0 \<le> m \<Longrightarrow> m \<le> 11 \<Longrightarrow> MakeDay y m d = day_of (y, m, d)"
  by (simp add: MakeDay_def day_of_def)

lemma MakeDay_day_of_mod: "MakeDay y m d = day_of (y + m div 12, m mod 12, d)"
  by (simp add: MakeDay_def day_of_def)

lemma civil_of_day_props: "valid_civil (civil_of_day n)" "day_of (civil_of_day n) = n"
  using civil_from_day[of 0 "1970 + n div 365" "n - DayFromYear (1970 + n div 365) + 1"]
  by (simp_all add: civil_of_day_def Let_def day_of_def DaysBeforeMonth_0)

lemma civil_of_day_unique:
  assumes "valid_civil c" "day_of c = n"
  shows "civil_of_day n = c"
  using day_of_inj[OF civil_of_day_props(1)[of n] assms(1)] civil_of_day_props(2)[of n] assms(2)
  by simp

text \<open>
  The year is the one the specification defines: the last year that starts on or before
  the day.
\<close>

lemma YearFromTime_bounds:
  "DayFromYear (YearFromTime t) \<le> Day t" "Day t < DayFromYear (YearFromTime t + 1)"
proof -
  obtain y m d where c: "civil_of_day (Day t) = (y, m, d)" by (cases "civil_of_day (Day t)")
  have v: "valid_civil (y, m, d)" and e: "day_of (y, m, d) = Day t"
    using civil_of_day_props[of "Day t"] by (simp_all add: c)
  show "DayFromYear (YearFromTime t) \<le> Day t" "Day t < DayFromYear (YearFromTime t + 1)"
    using day_of_year_bounds[OF v] e by (simp_all add: YearFromTime_def c)
qed

lemma civil_of_day_MakeDay: "civil_of_day (MakeDay y m d) = civil_from (y + m div 12) (m mod 12) d"
proof -
  have b: "0 \<le> m mod 12" "m mod 12 \<le> 11" by simp_all
  show ?thesis
    using civil_from_day[OF b, of "y + m div 12" d]
    by (intro civil_of_day_unique) (simp_all add: MakeDay_day_of_mod)
qed

lemma div_mod_offset:
  fixes n c k :: int
  assumes "0 \<le> k" "k < c"
  shows "(n * c + k) div c = n" "(n * c + k) mod c = k"
proof -
  have e: "n * c + k = c * n + k" by (simp add: mult.commute)
  show "(n * c + k) div c = n" using int_div_pos_eq[OF e assms] .
  show "(n * c + k) mod c = k" using int_mod_pos_eq[OF e assms] .
qed

lemma Day_midday: "Day (midday n) = n" "TimeWithinDay (midday n) = MakeTime 12 0 0 0"
  using div_mod_offset[of "MakeTime 12 0 0 0" msPerDay n]
  by (simp_all add: Day_def TimeWithinDay_def midday_def MakeDate_def MakeTime_def msPerDay_def)

lemma fields_midday:
  "YearFromTime (midday n) = fst (civil_of_day n)"
  "MonthFromTime (midday n) = fst (snd (civil_of_day n))"
  "DateFromTime (midday n) = snd (snd (civil_of_day n))"
  by (simp_all add: YearFromTime_def MonthFromTime_def DateFromTime_def Day_midday split: prod.split)

lemma getters_midday:
  assumes "local_time_exists tz (midday n)"
  shows "getFullYear tz (UTC tz (midday n)) = fst (civil_of_day n)"
    "getMonth tz (UTC tz (midday n)) = fst (snd (civil_of_day n))"
    "getDate tz (UTC tz (midday n)) = snd (snd (civil_of_day n))"
  using assms
  by (simp_all add: getFullYear_def getMonth_def getDate_def local_time_exists_def fields_midday)

lemma advance_midday:
  assumes "local_time_exists tz (midday n)"
  shows "advance tz f (UTC tz (midday n)) = UTC tz (midday (next_day_number f n))"
proof -
  have lt: "LocalTime tz (UTC tz (midday n)) = midday n"
    using assms by (simp add: local_time_exists_def)
  obtain y m d where c: "civil_of_day n = (y, m, d)" by (cases "civil_of_day n")
  show ?thesis
    unfolding midday_def[of "next_day_number f n"]
    by (cases f)
       (simp_all add: advance_def setDate_def setMonth_def setFullYear_def Let_def lt
          getters_midday[OF assms] fields_midday Day_midday next_day_number_def c)
qed

lemma fixed_zone_exists: "local_time_exists (fixed_zone offset) t"
  by (simp add: local_time_exists_def LocalTime_def UTC_def fixed_zone_def)

subsection \<open>Advancing a date\<close>

lemma next_day_number_daily: "next_day_number daily n = n + 1"
  and next_day_number_weekly: "next_day_number weekly n = n + 7"
proof -
  obtain y m d where c: "civil_of_day n = (y, m, d)" by (cases "civil_of_day n")
  have v: "0 \<le> m" "m \<le> 11" and e: "day_of (y, m, d) = n"
    using civil_of_day_props[of n] by (simp_all add: c valid_civil_def)
  show "next_day_number daily n = n + 1" "next_day_number weekly n = n + 7"
    using e by (simp_all add: next_day_number_def c MakeDay_day_of[OF v] day_of_def)
qed

lemma civil_from_id: "1 \<le> dt \<Longrightarrow> dt \<le> DaysInMonth y m \<Longrightarrow> civil_from y m dt = (y, m, dt)"
  by (subst civil_from.simps) simp

lemma civil_from_over:
  assumes "DaysInMonth y m < dt" "dt \<le> 31" "m \<noteq> 11"
  shows "civil_from y m dt = (y, m + 1, dt - DaysInMonth y m)"
proof -
  have "1 \<le> dt" using assms(1) DaysInMonth_bounds(1)[of y m] by simp
  then have "civil_from y m dt = civil_from y (m + 1) (dt - DaysInMonth y m)"
    using assms by (subst civil_from.simps) simp
  moreover have "dt - DaysInMonth y m \<le> DaysInMonth y (m + 1)"
    using assms(2) DaysInMonth_bounds(1)[of y m] DaysInMonth_bounds(1)[of y "m + 1"] by simp
  ultimately show ?thesis using assms(1) by (simp add: civil_from_id)
qed

lemma DaysInMonth_11: "DaysInMonth y 11 = 31"
  by (simp add: DaysInMonth_def)

lemma DaysInMonth_year: "m \<noteq> 1 \<Longrightarrow> DaysInMonth y' m = DaysInMonth y m"
  by (simp add: DaysInMonth_def)

lemma DaysInMonth_feb: "28 \<le> DaysInMonth y 1 \<and> DaysInMonth y 1 \<le> 29"
  by (simp add: DaysInMonth_def)

text \<open>The date that a string is read as: its days past the end of the month count into the next.\<close>

lemma date_read:
  assumes "1 \<le> m" "m \<le> 12" "1 \<le> d" "d \<le> 31"
  shows "civil_of_day (MakeDay y (m - 1) d) =
     (if d \<le> DaysInMonth y (m - 1) then (y, m - 1, d) else (y, m, d - DaysInMonth y (m - 1)))"
proof -
  have dm: "(m - 1) div 12 = 0" "(m - 1) mod 12 = m - 1" using assms by simp_all
  have c: "civil_of_day (MakeDay y (m - 1) d) = civil_from y (m - 1) d"
    by (simp add: civil_of_day_MakeDay dm)
  show ?thesis
  proof (cases "d \<le> DaysInMonth y (m - 1)")
    case True
    then show ?thesis using assms(3) by (simp add: c civil_from_id)
  next
    case False
    then have "m - 1 \<noteq> 11" using assms(4) by (auto simp: DaysInMonth_11)
    then have "civil_from y (m - 1) d = (y, m - 1 + 1, d - DaysInMonth y (m - 1))"
      using False assms(4) by (intro civil_from_over) simp_all
    then show ?thesis using False by (simp add: c)
  qed
qed

lemma next_monthly:
  assumes "civil_of_day n = (y, m, d)"
  shows "civil_of_day (next_day_number monthly n) =
     (if m = 11 then (y + 1, 0, d)
      else if d \<le> DaysInMonth y (m + 1) then (y, m + 1, d)
      else (y, m + 2, d - DaysInMonth y (m + 1)))"
proof -
  have v: "0 \<le> m" "m \<le> 11" "1 \<le> d" "d \<le> DaysInMonth y m"
    using civil_of_day_props(1)[of n] by (simp_all add: assms valid_civil_def)
  have d31: "d \<le> 31" using v(4) DaysInMonth_bounds(2)[of y m] by simp
  have c: "civil_of_day (next_day_number monthly n) = civil_from (y + (m + 1) div 12) ((m + 1) mod 12) d"
    by (simp add: next_day_number_def assms civil_of_day_MakeDay)
  show ?thesis
  proof (cases "m = 11")
    case True
    then have "d \<le> DaysInMonth (y + 1) 0" using d31 by (simp add: DaysInMonth_def)
    then show ?thesis using True v(3) by (simp add: c civil_from_id)
  next
    case False
    then have dm: "(m + 1) div 12 = 0" "(m + 1) mod 12 = m + 1" using v by simp_all
    show ?thesis
    proof (cases "d \<le> DaysInMonth y (m + 1)")
      case True
      then show ?thesis using False v(3) by (simp add: c dm civil_from_id)
    next
      case over: False
      then have "m + 1 \<noteq> 11" using d31 by (auto simp: DaysInMonth_11)
      then have "civil_from y (m + 1) d = (y, m + 1 + 1, d - DaysInMonth y (m + 1))"
        using over d31 by (intro civil_from_over) simp_all
      then show ?thesis using False over by (simp add: c dm)
    qed
  qed
qed

lemma next_yearly:
  assumes "civil_of_day n = (y, m, d)"
  shows "civil_of_day (next_day_number yearly n) =
     (if d \<le> DaysInMonth (y + 1) m then (y + 1, m, d) else (y + 1, 2, 1))"
proof -
  have v: "0 \<le> m" "m \<le> 11" "1 \<le> d" "d \<le> DaysInMonth y m"
    using civil_of_day_props(1)[of n] by (simp_all add: assms valid_civil_def)
  have dm: "m div 12 = 0" "m mod 12 = m" using v by simp_all
  have c: "civil_of_day (next_day_number yearly n) = civil_from (y + 1) m d"
    by (simp add: next_day_number_def assms civil_of_day_MakeDay dm)
  show ?thesis
  proof (cases "d \<le> DaysInMonth (y + 1) m")
    case True
    then show ?thesis using v(3) by (simp add: c civil_from_id)
  next
    case False
    then have m1: "m = 1" using v(4) DaysInMonth_year[of m "y + 1" y] by auto
    then have "d = 29" "DaysInMonth (y + 1) 1 = 28"
      using False v(4) DaysInMonth_feb[of y] DaysInMonth_feb[of "y + 1"] by auto
    then have "civil_from (y + 1) m d = (y + 1, 2, 1)"
      using m1 civil_from_over[of "y + 1" 1 29] by simp
    then show ?thesis using False by (simp add: c)
  qed
qed

lemma calculateNextDueDate_format:
  assumes "parse_ymd s = Some (y, m, d)"
    and "local_time_exists tz (midday (MakeDay y (m - 1) d))"
    and "local_time_exists tz (midday (next_day_number f (MakeDay y (m - 1) d)))"
    and "civil_of_day (next_day_number f (MakeDay y (m - 1) d)) = (y', m', d')"
  shows "calculateNextDueDate tz s f =
     String y' @ ''-'' @ two_digits (m' + 1) @ ''-'' @ two_digits d'"
proof -
  let ?n' = "next_day_number f (MakeDay y (m - 1) d)"
  have v: "0 \<le> m'" "m' \<le> 11" "1 \<le> d'" "d' \<le> DaysInMonth y' m'"
    using civil_of_day_props(1)[of ?n'] by (simp_all add: assms(4) valid_civil_def)
  have d31: "d' \<le> 31" using v(4) DaysInMonth_bounds(2)[of y' m'] by simp
  have p: "padStart 2 CHR ''0'' (String (m' + 1)) = two_digits (m' + 1)"
    "padStart 2 CHR ''0'' (String d') = two_digits d'"
    using v d31 by (simp_all add: padStart_two_digits)
  show ?thesis
    by (simp add: calculateNextDueDate_def new_Date_midday[OF assms(1)] Let_def
        advance_midday[OF assms(2)] getters_midday[OF assms(3)] assms(4) p)
qed

section \<open>Properties of the ordering\<close>

lemma mset_insert_sorted: "mset (insert_sorted cmp x xs) = add_mset x (mset xs)"
  by (induction xs) simp_all

lemma mset_array_sort: "mset (array_sort cmp xs) = mset xs"
  unfolding array_sort_def by (induction xs) (simp_all add: mset_insert_sorted)

lemma set_array_sort: "set (array_sort cmp xs) = set xs"
  using mset_array_sort[of cmp xs] by (metis set_mset_mset)

lemma length_array_sort: "length (array_sort cmp xs) = length xs"
  using mset_array_sort[of cmp xs] by (metis size_mset)

lemma set_sortTasks: "set (sortTasks xs) = set xs"
  by (simp add: sortTasks_def set_array_sort)

lemma mset_sortTasks: "mset (sortTasks xs) = mset xs"
  by (simp add: sortTasks_def mset_array_sort)

lemma array_sort_Cons: "array_sort cmp (x # xs) = insert_sorted cmp x (array_sort cmp xs)"
  by (simp add: array_sort_def)

lemma array_sort_ascending:
  "successively (\<lambda>a b. cmp a b \<le> 0) xs \<Longrightarrow> array_sort cmp xs = xs"
proof (induction xs)
  case Nil
  show ?case by (simp add: array_sort_def)
next
  case (Cons x xs)
  then have "array_sort cmp xs = xs" by (cases xs) simp_all
  then show ?case using Cons.prems by (cases xs) (simp_all add: array_sort_Cons)
qed

lemma successively_insert_sorted:
  assumes anti: "\<And>a b. 0 < cmp a b \<Longrightarrow> cmp b a \<le> 0"
    and "successively (\<lambda>a b. cmp a b \<le> 0) xs"
  shows "successively (\<lambda>a b. cmp a b \<le> 0) (insert_sorted cmp x xs)"
  using assms(2)
proof (induction xs)
  case Nil
  show ?case by simp
next
  case (Cons y ys)
  show ?case
  proof (cases "cmp x y \<le> 0")
    case True
    then show ?thesis using Cons.prems by simp
  next
    case False
    then have yx: "cmp y x \<le> 0" using anti[of x y] by simp
    have ih: "successively (\<lambda>a b. cmp a b \<le> 0) (insert_sorted cmp x ys)"
      using Cons by (cases ys) simp_all
    show ?thesis
    proof (cases ys)
      case Nil
      then show ?thesis using False yx by simp
    next
      case (Cons z zs)
      then show ?thesis using False yx ih Cons.prems by (simp split: if_splits)
    qed
  qed
qed

lemma successively_array_sort:
  assumes "\<And>a b. 0 < cmp a b \<Longrightarrow> cmp b a \<le> 0"
  shows "successively (\<lambda>a b. cmp a b \<le> 0) (array_sort cmp xs)"
proof (induction xs)
  case Nil
  show ?case by (simp add: array_sort_def)
next
  case (Cons x xs)
  then show ?case using assms by (simp add: array_sort_Cons successively_insert_sorted)
qed

lemma compare_id_anti: "0 < compare_id a b \<Longrightarrow> compare_id b a \<le> 0"
  by (auto simp: compare_id_def split: if_splits)

lemma importanceOrder_range: "1 \<le> importanceOrder i \<and> importanceOrder i \<le> 3"
  by (cases i) (simp_all add: importanceOrder_def)

lemma compare_incomplete_anti:
  "compare_incomplete a b = Some r \<Longrightarrow> 0 < r \<Longrightarrow> \<exists>r'. compare_incomplete b a = Some r' \<and> r' \<le> 0"
  unfolding compare_incomplete_def Let_def
  by (auto split: if_splits option.splits)

lemma compare_incomplete_None:
  "compare_incomplete a b = None \<Longrightarrow> compare_incomplete b a = None"
  unfolding compare_incomplete_def Let_def
  by (auto split: if_splits option.splits)

lemma compareTasks_anti: "0 < compareTasks a b \<Longrightarrow> compareTasks b a \<le> 0"
proof -
  assume pos: "0 < compareTasks a b"
  show ?thesis
  proof (cases "completed a = completed b")
    case False
    then show ?thesis using pos by (auto simp: compareTasks_def split: if_splits)
  next
    case same: True
    show ?thesis
    proof (cases "completed a")
      case True
      then show ?thesis using pos same compare_id_anti[of a b] by (simp add: compareTasks_def)
    next
      case False
      show ?thesis
      proof (cases "compare_incomplete a b")
        case None
        then show ?thesis
          using pos same False compare_id_anti[of a b] compare_incomplete_None[of a b]
          by (simp add: compareTasks_def)
      next
        case (Some r)
        then show ?thesis
          using pos same False compare_incomplete_anti[of a b r]
          by (auto simp: compareTasks_def)
      qed
    qed
  qed
qed

subsection \<open>The sorted list is in order\<close>

lemma compareTasks_keys:
  assumes "wellformed_dueDate a" "wellformed_dueDate b"
  shows "compareTasks a b = compare_keys (sort_key a) (sort_key b)"
  using assms
  unfolding compareTasks_def compare_incomplete_def compare_id_def compare_keys_def sort_key_def
    wellformed_dueDate_def Let_def
  by (auto split: option.splits)

lemma compare_keys_trans:
  assumes "compare_keys x y \<le> 0" "compare_keys y z \<le> 0"
  shows "compare_keys x z \<le> 0"
proof -
  obtain cx ix dx nx where x: "x = (cx, ix, dx, nx)" by (cases x)
  obtain cy iy dy ny where y: "y = (cy, iy, dy, ny)" by (cases y)
  obtain cz iz dz nz where z: "z = (cz, iz, dz, nz)" by (cases z)
  show ?thesis
    using assms unfolding x y z compare_keys_def
    by (cases cx; cases cy; cases cz; cases dx; cases dy; cases dz)
       (auto split: if_splits)
qed

lemma set_insert_sorted: "set (insert_sorted cmp x xs) = insert x (set xs)"
  using mset_insert_sorted[of cmp x xs] by (metis set_mset_add_mset_insert set_mset_mset)

lemma sorted_wrt_insert_sorted:
  assumes tr: "\<And>a b c. P a \<Longrightarrow> P b \<Longrightarrow> P c \<Longrightarrow> cmp a b \<le> 0 \<Longrightarrow> cmp b c \<le> 0 \<Longrightarrow> cmp a c \<le> 0"
    and anti: "\<And>a b. 0 < cmp a b \<Longrightarrow> cmp b a \<le> 0"
    and "P x" "\<forall>y \<in> set xs. P y" "sorted_wrt (\<lambda>a b. cmp a b \<le> 0) xs"
  shows "sorted_wrt (\<lambda>a b. cmp a b \<le> 0) (insert_sorted cmp x xs)"
  using assms(3-5)
proof (induction xs)
  case Nil
  show ?case by simp
next
  case (Cons y ys)
  show ?case
  proof (cases "cmp x y \<le> 0")
    case True
    have "\<forall>z \<in> set ys. cmp x z \<le> 0"
    proof
      fix z assume z: "z \<in> set ys"
      then have "cmp y z \<le> 0" using Cons.prems(3) by simp
      then show "cmp x z \<le> 0" using tr[of x y z] True Cons.prems(1,2) z by simp
    qed
    then show ?thesis using True Cons.prems(3) by simp
  next
    case False
    then have yx: "cmp y x \<le> 0" using anti[of x y] by simp
    have ih: "sorted_wrt (\<lambda>a b. cmp a b \<le> 0) (insert_sorted cmp x ys)"
      using Cons by simp
    have "\<forall>z \<in> set (insert_sorted cmp x ys). cmp y z \<le> 0"
      using yx Cons.prems(3) by (simp add: set_insert_sorted)
    then show ?thesis using False ih by simp
  qed
qed

lemma sorted_wrt_array_sort:
  assumes tr: "\<And>a b c. P a \<Longrightarrow> P b \<Longrightarrow> P c \<Longrightarrow> cmp a b \<le> 0 \<Longrightarrow> cmp b c \<le> 0 \<Longrightarrow> cmp a c \<le> 0"
    and anti: "\<And>a b. 0 < cmp a b \<Longrightarrow> cmp b a \<le> 0"
    and "\<forall>y \<in> set xs. P y"
  shows "sorted_wrt (\<lambda>a b. cmp a b \<le> 0) (array_sort cmp xs)"
  using assms(3)
proof (induction xs)
  case Nil
  show ?case by (simp add: array_sort_def)
next
  case (Cons x xs)
  have "sorted_wrt (\<lambda>a b. cmp a b \<le> 0) (insert_sorted cmp x (array_sort cmp xs))"
  proof (rule sorted_wrt_insert_sorted[where P = P])
    show "\<And>a b c. P a \<Longrightarrow> P b \<Longrightarrow> P c \<Longrightarrow> cmp a b \<le> 0 \<Longrightarrow> cmp b c \<le> 0 \<Longrightarrow> cmp a c \<le> 0"
      by (rule tr)
    show "\<And>a b. 0 < cmp a b \<Longrightarrow> cmp b a \<le> 0" by (rule anti)
    show "P x" using Cons.prems by simp
    show "\<forall>y \<in> set (array_sort cmp xs). P y" using Cons.prems by (simp add: set_array_sort)
    show "sorted_wrt (\<lambda>a b. cmp a b \<le> 0) (array_sort cmp xs)" using Cons by simp
  qed
  then show ?case by (simp add: array_sort_Cons)
qed

lemma compareTasks_trans:
  assumes "wellformed_dueDate a" "wellformed_dueDate b" "wellformed_dueDate c"
    "compareTasks a b \<le> 0" "compareTasks b c \<le> 0"
  shows "compareTasks a c \<le> 0"
  using assms compare_keys_trans[of "sort_key a" "sort_key b" "sort_key c"]
  by (simp add: compareTasks_keys)

lemma sortTasks_ordered:
  assumes "\<forall>t \<in> set xs. wellformed_dueDate t"
  shows "sorted_wrt (\<lambda>a b. compareTasks a b \<le> 0) (sortTasks xs)"
  unfolding sortTasks_def
  by (rule sorted_wrt_array_sort[where P = wellformed_dueDate])
     (erule (4) compareTasks_trans, erule compareTasks_anti, rule assms)

lemma compareTasks_le_0D:
  assumes "wellformed_dueDate a" "wellformed_dueDate b" "compareTasks a b \<le> 0"
  shows "(completed a \<longrightarrow> completed b)
    \<and> (\<not> completed b \<longrightarrow> fst (snd (sort_key a)) \<le> fst (snd (sort_key b)))
    \<and> (\<not> completed b \<and> fst (snd (sort_key a)) = fst (snd (sort_key b)) \<longrightarrow>
          (\<forall>tb. fst (snd (snd (sort_key b))) = Some tb \<longrightarrow>
             (\<exists>ta. fst (snd (snd (sort_key a))) = Some ta \<and> ta \<le> tb)))
    \<and> (completed a = completed b
        \<and> (\<not> completed a \<longrightarrow> fst (snd (sort_key a)) = fst (snd (sort_key b))
              \<and> truthy_dueDate a = None \<and> truthy_dueDate b = None)
        \<longrightarrow> task_id b \<le> task_id a)"
  using assms(3) unfolding compareTasks_keys[OF assms(1,2)]
  using assms(1,2)
  unfolding compare_keys_def sort_key_def wellformed_dueDate_def
  by (auto split: if_splits option.splits)

lemma sortTasks_tiers:
  assumes "\<forall>t \<in> set xs. wellformed_dueDate t" "i < j" "j < length (sortTasks xs)"
  shows "compareTasks (sortTasks xs ! i) (sortTasks xs ! j) \<le> 0"
    and "completed (sortTasks xs ! i) \<longrightarrow> completed (sortTasks xs ! j)"
    and "\<not> completed (sortTasks xs ! j) \<longrightarrow>
          fst (snd (sort_key (sortTasks xs ! i))) \<le> fst (snd (sort_key (sortTasks xs ! j)))"
proof -
  have wf: "\<forall>t \<in> set (sortTasks xs). wellformed_dueDate t"
    using assms(1) by (simp add: set_sortTasks)
  show c: "compareTasks (sortTasks xs ! i) (sortTasks xs ! j) \<le> 0"
    using sortTasks_ordered[OF assms(1)] assms(2,3) by (simp add: sorted_wrt_iff_nth_less)
  have a: "wellformed_dueDate (sortTasks xs ! i)" "wellformed_dueDate (sortTasks xs ! j)"
    using wf assms(2,3) by simp_all
  show "completed (sortTasks xs ! i) \<longrightarrow> completed (sortTasks xs ! j)"
    and "\<not> completed (sortTasks xs ! j) \<longrightarrow>
          fst (snd (sort_key (sortTasks xs ! i))) \<le> fst (snd (sort_key (sortTasks xs ! j)))"
    using compareTasks_le_0D[OF a c] by blast+
qed

section \<open>Properties of the handlers\<close>

lemma filter_remove_nth:
  assumes "distinct (map f xs)" "k < length xs" "f (xs ! k) = i"
  shows "filter (\<lambda>t. f t \<noteq> i) xs = take k xs @ drop (Suc k) xs"
  using assms
proof (induction xs arbitrary: k)
  case Nil
  then show ?case by simp
next
  case (Cons x xs)
  show ?case
  proof (cases k)
    case 0
    then have "f x = i" using Cons.prems by simp
    moreover have "\<forall>t \<in> set xs. f t \<noteq> i"
      using Cons.prems(1) \<open>f x = i\<close> by (auto simp: image_iff)
    ultimately show ?thesis using 0 by simp
  next
    case (Suc j)
    then have "f x \<noteq> i" using Cons.prems by (auto simp: image_iff)
    moreover have "filter (\<lambda>t. f t \<noteq> i) xs = take j xs @ drop (Suc j) xs"
      using Cons.IH[of j] Cons.prems Suc by simp
    ultimately show ?thesis using Suc by simp
  qed
qed

lemma find_None_iff2: "find P xs = None \<longleftrightarrow> (\<forall>x \<in> set xs. \<not> P x)"
  by (induction xs) auto

lemma map_if_distinct:
  assumes "distinct (map f xs)" "k < length xs" "f (xs ! k) = a"
  shows "map (\<lambda>x. if f x = a then g x else x) xs = xs[k := g (xs ! k)]"
proof (rule nth_equalityI)
  show "length (map (\<lambda>x. if f x = a then g x else x) xs) = length (xs[k := g (xs ! k)])" by simp
next
  fix n assume n: "n < length (map (\<lambda>x. if f x = a then g x else x) xs)"
  show "map (\<lambda>x. if f x = a then g x else x) xs ! n = xs[k := g (xs ! k)] ! n"
  proof (cases "n = k")
    case True
    then show ?thesis using assms by simp
  next
    case False
    have "f (xs ! n) \<noteq> f (xs ! k)"
      using assms(1,2) n False by (simp add: distinct_conv_nth)
    then show ?thesis using assms n False by simp
  qed
qed

lemma find_distinct:
  assumes "distinct (map f xs)" "k < length xs" "f (xs ! k) = a"
  shows "find (\<lambda>x. f x = a) xs = Some (xs ! k)"
  using assms
proof (induction xs arbitrary: k)
  case Nil
  then show ?case by simp
next
  case (Cons x xs)
  show ?case
  proof (cases k)
    case 0
    then show ?thesis using Cons.prems by simp
  next
    case (Suc j)
    then have "f x \<noteq> a" using Cons.prems by (auto simp: image_iff)
    then show ?thesis using Cons.IH[of j] Cons.prems Suc by simp
  qed
qed

lemma replace_task_distinct:
  assumes "distinct (map task_id xs)" "k < length xs" "task_id (xs ! k) = i"
  shows "replace_task i u xs = xs[k := u]"
  unfolding replace_task_def using map_if_distinct[OF assms, of "\<lambda>_. u"] by simp

lemma map_task_id_replace_task:
  "task_id u = i \<Longrightarrow> map task_id (replace_task i u xs) = map task_id xs"
  by (induction xs) (simp_all add: replace_task_def)

lemma replace_task_other:
  "k < length xs \<Longrightarrow> task_id (xs ! k) \<noteq> i \<Longrightarrow> replace_task i u xs ! k = xs ! k"
  by (simp add: replace_task_def)

lemma find_task_id:
  "find (\<lambda>t. task_id t = i) xs = Some t \<Longrightarrow> task_id t = i \<and> t \<in> set xs"
  by (induction xs) (auto split: if_splits)

lemma handleToggleSubtask_ids:
  "map task_id (tasks (handleToggleSubtask s taskId subtaskId)) = map task_id (tasks s)"
proof (cases "find (\<lambda>t. task_id t = taskId) (tasks s)")
  case None
  then show ?thesis by (simp add: handleToggleSubtask_def)
next
  case (Some t)
  then have "task_id t = taskId" using find_task_id by blast
  then show ?thesis using Some
    by (cases "subtasks t") (simp_all add: handleToggleSubtask_def Let_def map_task_id_replace_task)
qed

lemma handleToggleSubtask_others:
  assumes "k < length (tasks s)" "task_id (tasks s ! k) \<noteq> taskId"
  shows "tasks (handleToggleSubtask s taskId subtaskId) ! k = tasks s ! k"
proof (cases "find (\<lambda>t. task_id t = taskId) (tasks s)")
  case None
  then show ?thesis by (simp add: handleToggleSubtask_def)
next
  case (Some t)
  then show ?thesis using assms
    by (cases "subtasks t") (simp_all add: handleToggleSubtask_def Let_def replace_task_other)
qed

lemma handleToggleSubtask_exact:
  assumes "distinct (map task_id (tasks s))" "i < length (tasks s)"
    "task_id (tasks s ! i) = taskId" "subtasks (tasks s ! i) = Some subs"
    "distinct (map sub_id subs)" "j < length subs" "sub_id (subs ! j) = subtaskId"
  shows "tasks (handleToggleSubtask s taskId subtaskId) =
     (tasks s)[i := (tasks s ! i)\<lparr>subtasks :=
        Some (subs[j := (subs ! j)\<lparr>sub_completed := \<not> sub_completed (subs ! j)\<rparr>])\<rparr>]"
proof -
  have f: "find (\<lambda>t. task_id t = taskId) (tasks s) = Some (tasks s ! i)"
    using assms(1-3) by (rule find_distinct)
  have m: "map (\<lambda>st. if sub_id st = subtaskId then st\<lparr>sub_completed := \<not> sub_completed st\<rparr> else st) subs
      = subs[j := (subs ! j)\<lparr>sub_completed := \<not> sub_completed (subs ! j)\<rparr>]"
    using assms(5-7) by (rule map_if_distinct)
  show ?thesis
    using f m assms(4) replace_task_distinct[OF assms(1-3)]
    by (simp add: handleToggleSubtask_def Let_def)
qed

lemma set_replace_task: "set (replace_task i u xs) \<subseteq> insert u (set xs)"
  by (auto simp: replace_task_def)

lemma replace_task_mem:
  "t \<in> set (replace_task i u xs) \<Longrightarrow> (t = u \<and> (\<exists>x \<in> set xs. task_id x = i)) \<or> (t \<in> set xs \<and> task_id t \<noteq> i)"
  by (auto simp: replace_task_def split: if_splits)

lemma replace_task_hit:
  "x \<in> set xs \<Longrightarrow> task_id x = i \<Longrightarrow> u \<in> set (replace_task i u xs)"
  by (force simp: replace_task_def)

lemma all_active_sort_replace:
  assumes "all_recurring_active ts" "recurring_active u"
  shows "all_recurring_active (sortTasks (replace_task i u ts))"
  using assms set_replace_task[of i u ts]
  by (auto simp: all_recurring_active_def set_sortTasks)

lemma all_active_replace:
  assumes "all_recurring_active ts" "recurring_active u"
  shows "all_recurring_active (replace_task i u ts)"
  using assms set_replace_task[of i u ts]
  by (auto simp: all_recurring_active_def)

lemma save_active:
  assumes "all_recurring_active (tasks s)"
  shows "all_recurring_active (tasks (handleSaveTask s added))"
proof (cases "trim (formText s) = []")
  case True
  then show ?thesis using assms by (simp add: handleSaveTask_def)
next
  case False
  show ?thesis
  proof (cases "editingTask s")
    case None
    show ?thesis
    proof (cases added)
      case no: None
      then show ?thesis using assms False None by (simp add: handleSaveTask_def Let_def)
    next
      case (Some i)
      then show ?thesis using assms False None
        by (simp add: handleSaveTask_def Let_def all_recurring_active_def set_sortTasks
            recurring_active_def addTask_def)
    qed
  next
    case (Some e)
    then show ?thesis using assms False
      by (auto simp: handleSaveTask_def Let_def recurring_active_def intro!: all_active_sort_replace)
  qed
qed

lemma toggle_active:
  assumes "all_recurring_active (tasks s)"
  shows "all_recurring_active (tasks (handleToggleTask tz s task today))"
  using assms
  by (cases "recurring task")
     (auto simp: handleToggleTask_def Let_def recurring_active_def intro!: all_active_sort_replace)

lemma toggle_subtask_active:
  assumes "all_recurring_active (tasks s)"
  shows "all_recurring_active (tasks (handleToggleSubtask s taskId subtaskId))"
proof (cases "find (\<lambda>t. task_id t = taskId) (tasks s)")
  case None
  then show ?thesis using assms by (simp add: handleToggleSubtask_def)
next
  case (Some t)
  then have "recurring_active t" using assms find_task_id[OF Some] by (simp add: all_recurring_active_def)
  then have "\<And>ss. recurring_active (t\<lparr>subtasks := ss\<rparr>)" by (simp add: recurring_active_def)
  then show ?thesis using Some assms
    by (cases "subtasks t") (simp_all add: handleToggleSubtask_def Let_def all_active_replace)
qed

lemma delete_active:
  assumes "all_recurring_active (tasks s)"
  shows "all_recurring_active (tasks (handleDeleteTask s i))"
  using assms by (simp add: handleDeleteTask_def all_recurring_active_def)

lemma breakdown_tasks:
  "tasks (handleBreakdownTask s task response now) = tasks s
   \<or> (\<exists>ss. tasks (handleBreakdownTask s task response now) =
         sortTasks (replace_task (task_id task) (task\<lparr>subtasks := ss\<rparr>) (tasks s)))"
  by (cases response) (auto simp: handleBreakdownTask_def Let_def split: option.splits)

lemma breakdown_active:
  assumes "all_recurring_active (tasks s)" "recurring_active task"
  shows "all_recurring_active (tasks (handleBreakdownTask s task response now))"
proof -
  have "\<And>ss. recurring_active (task\<lparr>subtasks := ss\<rparr>)"
    using assms(2) by (simp add: recurring_active_def)
  then show ?thesis
    using breakdown_tasks[of s task response now] assms(1) all_active_sort_replace by metis
qed

lemma drop_tasks:
  assumes "handleSubtaskDrop s targetTaskId targetSubtask = Inr s'"
  shows "tasks s' = tasks s
   \<or> (\<exists>t ss. t \<in> set (tasks s) \<and> tasks s' = replace_task targetTaskId (t\<lparr>subtasks := ss\<rparr>) (tasks s))"
proof (cases "draggedSubtaskRef s")
  case None
  then show ?thesis using assms by (simp add: handleSubtaskDrop_def)
next
  case (Some ref)
  obtain sourceTaskId sourceSubtask where ref: "ref = (sourceTaskId, sourceSubtask)" by (cases ref)
  show ?thesis
  proof (cases "sourceTaskId \<noteq> targetTaskId \<or> sub_id sourceSubtask = sub_id targetSubtask")
    case True
    then show ?thesis using assms Some ref by (auto simp: handleSubtaskDrop_def)
  next
    case go: False
    show ?thesis
    proof (cases "find (\<lambda>t. task_id t = targetTaskId) (tasks s)")
      case None
      then show ?thesis using assms Some ref go by (simp add: handleSubtaskDrop_def)
    next
      case found: (Some t)
      then have t: "t \<in> set (tasks s)" using find_task_id by blast
      show ?thesis
      proof (cases "subtasks t")
        case None
        then show ?thesis using assms Some ref go found by (simp add: handleSubtaskDrop_def)
      next
        case subs: (Some subs)
        have "\<exists>ss. tasks s' = replace_task targetTaskId (t\<lparr>subtasks := ss\<rparr>) (tasks s)"
          using assms Some ref go found subs
          unfolding handleSubtaskDrop_def Let_def
          by (auto split: prod.splits list.splits if_splits)
        then show ?thesis using t by blast
      qed
    qed
  qed
qed

lemma drop_active:
  assumes "all_recurring_active (tasks s)" "handleSubtaskDrop s targetTaskId targetSubtask = Inr s'"
  shows "all_recurring_active (tasks s')"
proof -
  from drop_tasks[OF assms(2)] show ?thesis
  proof
    assume "tasks s' = tasks s"
    then show ?thesis using assms(1) by simp
  next
    assume "\<exists>t ss. t \<in> set (tasks s) \<and> tasks s' = replace_task targetTaskId (t\<lparr>subtasks := ss\<rparr>) (tasks s)"
    then obtain t ss where t: "t \<in> set (tasks s)"
      and e: "tasks s' = replace_task targetTaskId (t\<lparr>subtasks := ss\<rparr>) (tasks s)" by blast
    have "recurring_active (t\<lparr>subtasks := ss\<rparr>)"
      using t assms(1) by (simp add: all_recurring_active_def recurring_active_def)
    then show ?thesis unfolding e using assms(1) by (rule all_active_replace[rotated])
  qed
qed

lemma created_task_incomplete:
  assumes "editingTask s = None" "trim (formText s) \<noteq> []"
  shows "\<exists>t \<in> set (tasks (handleSaveTask s (Some new_id))). task_id t = new_id \<and> \<not> completed t"
  using assms by (simp add: handleSaveTask_def Let_def set_sortTasks addTask_def)

lemma created_data_incomplete:
  assumes "editingTask s = None" "trim (formText s) \<noteq> []"
  shows "\<exists>d. last (db_calls (handleSaveTask s added)) = AddTask d \<and> \<not> new_completed d"
  using assms by (cases added) (simp_all add: handleSaveTask_def Let_def)

lemma edited_recurring_incomplete:
  assumes "editingTask s = Some e" "trim (formText s) \<noteq> []" "formIsRecurring s"
    "t \<in> set (tasks (handleSaveTask s added))" "task_id t = task_id e"
  shows "\<not> completed t \<and> recurring t = Some (formRecurrenceFrequency s)"
proof -
  let ?u = "e\<lparr>task_text := formText s,
               dueDate := (if formDueDate s = [] then None else Some (formDueDate s)),
               importance := formImportance s,
               recurring := Some (formRecurrenceFrequency s), completed := False\<rparr>"
  have "tasks (handleSaveTask s added) = sortTasks (replace_task (task_id e) ?u (tasks s))"
    using assms(1-3) by (simp add: handleSaveTask_def Let_def)
  then have "t \<in> set (replace_task (task_id e) ?u (tasks s))"
    using assms(4) by (simp add: set_sortTasks)
  then have "t = ?u" using replace_task_mem assms(5) by blast
  then show ?thesis by simp
qed

lemma toggled_recurring_incomplete:
  assumes "recurring task \<noteq> None"
    "t \<in> set (tasks (handleToggleTask tz s task today))" "task_id t = task_id task"
  shows "\<not> completed t \<and> recurring t = recurring task"
proof -
  obtain f where f: "recurring task = Some f" using assms(1) by blast
  have "\<exists>u. \<not> completed u \<and> recurring u = recurring task
      \<and> tasks (handleToggleTask tz s task today) = sortTasks (replace_task (task_id task) u (tasks s))"
  proof (cases "completed task")
    case True
    then show ?thesis using f
      by (intro exI[of _ "task\<lparr>completed := False\<rparr>"]) (simp add: handleToggleTask_def Let_def)
  next
    case False
    then show ?thesis using f
      by (intro exI[of _ "task\<lparr>dueDate := Some (calculateNextDueDate tz
                      (case truthy_dueDate task of None \<Rightarrow> today | Some d \<Rightarrow> d) f),
                   subtasks := map_option (map (\<lambda>st. st\<lparr>sub_completed := False\<rparr>)) (subtasks task)\<rparr>"])
         (simp add: handleToggleTask_def Let_def)
  qed
  then obtain u where u: "\<not> completed u" "recurring u = recurring task"
    "tasks (handleToggleTask tz s task today) = sortTasks (replace_task (task_id task) u (tasks s))"
    by blast
  then have "t \<in> set (replace_task (task_id task) u (tasks s))"
    using assms(2) by (simp add: set_sortTasks)
  then have "t = u" using replace_task_mem assms(3) by blast
  then show ?thesis using u by simp
qed

subsection \<open>Reordering subtasks\<close>

lemma findIndex_first:
  assumes "k < length xs" "P (xs ! k)" "\<forall>j < k. \<not> P (xs ! j)"
  shows "findIndex P xs = int k"
  using assms
proof (induction xs arbitrary: k)
  case Nil
  then show ?case by simp
next
  case (Cons x xs)
  show ?case
  proof (cases k)
    case 0
    then show ?thesis using Cons.prems by simp
  next
    case (Suc j)
    have "\<not> P x" using Cons.prems(3) Suc by auto
    moreover have "findIndex P xs = int j"
      using Cons.prems Suc by (intro Cons.IH) auto
    ultimately show ?thesis using Suc by (simp add: Let_def)
  qed
qed

lemma findIndex_distinct:
  assumes "distinct (map f xs)" "k < length xs" "f (xs ! k) = a"
  shows "findIndex (\<lambda>x. f x = a) xs = int k"
proof (rule findIndex_first)
  show "k < length xs" by fact
  show "f (xs ! k) = a" by fact
  show "\<forall>j<k. f (xs ! j) \<noteq> a"
  proof (intro allI impI)
    fix j assume "j < k"
    then have "f (xs ! j) \<noteq> f (xs ! k)"
      using assms(1,2) by (simp add: distinct_conv_nth)
    then show "f (xs ! j) \<noteq> a" using assms(3) by simp
  qed
qed

lemma splice_start_nat: "k \<le> length xs \<Longrightarrow> splice_start (int k) xs = k"
  by (simp add: splice_start_def)

lemma splice_delete1_nth:
  "k < length xs \<Longrightarrow> splice_delete1 (int k) xs = ([xs ! k], take k xs @ drop (Suc k) xs)"
  by (simp add: splice_delete1_def splice_start_nat Let_def take_Suc_conv_app_nth Cons_nth_drop_Suc[symmetric])

lemma splice_insert_nat:
  "k \<le> length xs \<Longrightarrow> splice_insert (int k) x xs = take k xs @ x # drop k xs"
  by (simp add: splice_insert_def splice_start_nat Let_def)

lemma mset_remove_nth:
  "k < length xs \<Longrightarrow> add_mset (xs ! k) (mset (take k xs @ drop (Suc k) xs)) = mset xs"
  by (metis add_mset_add_single id_take_nth_drop mset.simps(2) mset_append union_mset_add_mset_right)

lemma mset_insert_at: "mset (take k xs @ x # drop k xs) = add_mset x (mset xs)"
  by (metis append_take_drop_id mset.simps(2) mset_append union_mset_add_mset_right)

lemma filter_remove_nth_other:
  "k < length xs \<Longrightarrow> \<not> P (xs ! k) \<Longrightarrow> filter P (take k xs @ drop (Suc k) xs) = filter P xs"
proof -
  assume a: "k < length xs" "\<not> P (xs ! k)"
  have "filter P xs = filter P (take k xs @ xs ! k # drop (Suc k) xs)"
    using a(1) id_take_nth_drop by metis
  then show ?thesis using a(2) by simp
qed

lemma filter_insert_at_other:
  assumes "\<not> P x"
  shows "filter P (take k xs @ x # drop k xs) = filter P xs"
proof -
  have "filter P (take k xs @ x # drop k xs) = filter P (take k xs) @ filter P (drop k xs)"
    using assms by simp
  also have "\<dots> = filter P (take k xs @ drop k xs)" by (simp only: filter_append)
  finally show ?thesis by simp
qed

lemma nth_remove_nth:
  assumes "ia < length xs" "ib < length xs" "ia \<noteq> ib"
  shows "(take ia xs @ drop (Suc ia) xs) ! (if ia < ib then ib - 1 else ib) = xs ! ib"
    and "(if ia < ib then ib - 1 else ib) < length (take ia xs @ drop (Suc ia) xs)"
  using assms by (auto simp: nth_append min_def)

lemma nth_insert_at:
  assumes "k \<le> length xs"
  shows "(take k xs @ x # drop k xs) ! k = x"
    and "k < length xs \<Longrightarrow> (take k xs @ x # drop k xs) ! Suc k = xs ! k"
    and "0 < k \<Longrightarrow> (take k xs @ x # drop k xs) ! (k - 1) = xs ! (k - 1)"
  using assms by (auto simp: nth_append min_def)

lemma handleSubtaskDrop_reorder:
  assumes ref: "draggedSubtaskRef s = Some (targetTaskId, sourceSubtask)"
    and ne: "sub_id sourceSubtask \<noteq> sub_id targetSubtask"
    and dt: "distinct (map task_id (tasks s))" "i < length (tasks s)"
      "task_id (tasks s ! i) = targetTaskId"
    and subs: "subtasks (tasks s ! i) = Some subs" "distinct (map sub_id subs)"
    and ia: "ia < length subs" "sub_id (subs ! ia) = sub_id sourceSubtask"
    and ib: "ib < length subs" "sub_id (subs ! ib) = sub_id targetSubtask"
  shows "handleSubtaskDrop s targetTaskId targetSubtask =
     Inr (s\<lparr>tasks := (tasks s)[i := (tasks s ! i)\<lparr>subtasks :=
                Some (reorder (map_option snd (dragOverInfo s) = Some Top) ia ib subs)\<rparr>],
            db_calls := db_calls s @ [UpdateTask ((tasks s ! i)\<lparr>subtasks :=
                Some (reorder (map_option snd (dragOverInfo s) = Some Top) ia ib subs)\<rparr>)],
            dragOverInfo := None\<rparr>)"
proof -
  define rest where "rest = take ia subs @ drop (Suc ia) subs"
  define k where "k = (if ia < ib then ib - 1 else ib)"
  define before where "before = (map_option snd (dragOverInfo s) = Some Top)"
  define subs' where "subs' = take (if before then k else Suc k) rest @ subs ! ia # drop (if before then k else Suc k) rest"
  have neq: "ia \<noteq> ib" using ne ia ib by auto
  have f: "find (\<lambda>t. task_id t = targetTaskId) (tasks s) = Some (tasks s ! i)"
    using dt by (rule find_distinct)
  have si: "findIndex (\<lambda>st. sub_id st = sub_id sourceSubtask) subs = int ia"
    using subs(2) ia by (rule findIndex_distinct)
  have ti: "findIndex (\<lambda>st. sub_id st = sub_id targetSubtask) subs = int ib"
    using subs(2) ib by (rule findIndex_distinct)
  have del: "splice_delete1 (int ia) subs = ([subs ! ia], rest)"
    unfolding rest_def using ia(1) by (rule splice_delete1_nth)
  have adj: "(if int ib > int ia then int ib - 1 else int ib) = int k"
    unfolding k_def using neq by auto
  have len: "k < length rest"
    unfolding k_def rest_def using nth_remove_nth(2)[OF ia(1) ib(1) neq] .
  have ins1: "splice_insert (int k) (subs ! ia) rest = take k rest @ subs ! ia # drop k rest"
    using len by (intro splice_insert_nat) simp
  have ins2: "splice_insert (int k + 1) (subs ! ia) rest
      = take (Suc k) rest @ subs ! ia # drop (Suc k) rest"
    using len splice_insert_nat[of "Suc k" rest "subs ! ia"] by (simp add: add.commute)
  have ins: "(if before then splice_insert (int k) (subs ! ia) rest
              else splice_insert (int k + 1) (subs ! ia) rest) = subs'"
    unfolding subs'_def using ins1 ins2 by simp
  have r: "reorder before ia ib subs = subs'"
    unfolding reorder_def Let_def subs'_def rest_def k_def ..
  have "handleSubtaskDrop s targetTaskId targetSubtask =
     Inr (s\<lparr>tasks := replace_task targetTaskId ((tasks s ! i)\<lparr>subtasks := Some subs'\<rparr>) (tasks s),
            db_calls := db_calls s @ [UpdateTask ((tasks s ! i)\<lparr>subtasks := Some subs'\<rparr>)],
            dragOverInfo := None\<rparr>)"
    unfolding handleSubtaskDrop_def ref Let_def
    using ne f subs(1)
    by (simp only: option.case prod.case if_False si ti del adj list.case
          before_def[symmetric] ins simp_thms)
  then show ?thesis
    unfolding before_def[symmetric] r replace_task_distinct[OF dt] .
qed

lemma reorder_props:
  assumes "ia < length xs" "ib < length xs" "ia \<noteq> ib"
  shows "mset (reorder b ia ib xs) = mset xs"
    and "\<not> P (xs ! ia) \<Longrightarrow> filter P (reorder b ia ib xs) = filter P xs"
    and "Suc (if ia < ib then ib - 1 else ib) < length (reorder b ia ib xs)"
    and "reorder True ia ib xs ! (if ia < ib then ib - 1 else ib) = xs ! ia"
    and "reorder True ia ib xs ! Suc (if ia < ib then ib - 1 else ib) = xs ! ib"
    and "reorder False ia ib xs ! (if ia < ib then ib - 1 else ib) = xs ! ib"
    and "reorder False ia ib xs ! Suc (if ia < ib then ib - 1 else ib) = xs ! ia"
proof -
  define rest where "rest = take ia xs @ drop (Suc ia) xs"
  define k where "k = (if ia < ib then ib - 1 else ib)"
  have r: "\<And>b. reorder b ia ib xs =
      take (if b then k else Suc k) rest @ xs ! ia # drop (if b then k else Suc k) rest"
    unfolding reorder_def Let_def rest_def k_def ..
  have kb: "rest ! k = xs ! ib" and len: "k < length rest"
    unfolding rest_def k_def using nth_remove_nth[OF assms] by simp_all
  show "mset (reorder b ia ib xs) = mset xs"
    unfolding r mset_insert_at rest_def using mset_remove_nth[OF assms(1)] .
  show "filter P (reorder b ia ib xs) = filter P xs" if np: "\<not> P (xs ! ia)"
  proof -
    have "filter P (reorder b ia ib xs) = filter P rest"
      unfolding r using np by (rule filter_insert_at_other)
    also have "\<dots> = filter P xs"
      unfolding rest_def using assms(1) np by (rule filter_remove_nth_other)
    finally show ?thesis .
  qed
  show "Suc k < length (reorder b ia ib xs)"
    unfolding r using len by simp
  show "reorder True ia ib xs ! k = xs ! ia"
    unfolding r using nth_insert_at(1)[of k rest] len by simp
  show "reorder True ia ib xs ! Suc k = xs ! ib"
    unfolding r using nth_insert_at(2)[of k rest] len kb by simp
  show "reorder False ia ib xs ! k = xs ! ib"
    unfolding r using nth_insert_at(3)[of "Suc k" rest] len kb by simp
  show "reorder False ia ib xs ! Suc k = xs ! ia"
    unfolding r using nth_insert_at(1)[of "Suc k" rest] len by simp
qed

lemma handleSubtaskDrop_noop:
  assumes "draggedSubtaskRef s = Some src"
    "fst src \<noteq> targetTaskId \<or> sub_id (snd src) = sub_id targetSubtask"
  shows "handleSubtaskDrop s targetTaskId targetSubtask = Inr s"
  using assms by (cases src) (auto simp: handleSubtaskDrop_def)

lemma handleSubtaskDrop_adjacent:
  assumes ref: "draggedSubtaskRef s = Some (targetTaskId, sourceSubtask)"
    and ne: "sub_id sourceSubtask \<noteq> sub_id targetSubtask"
    and dt: "distinct (map task_id (tasks s))" "i < length (tasks s)"
      "task_id (tasks s ! i) = targetTaskId"
    and subs: "subtasks (tasks s ! i) = Some subs" "distinct (map sub_id subs)"
    and ia: "ia < length subs" "sub_id (subs ! ia) = sub_id sourceSubtask"
    and ib: "ib < length subs" "sub_id (subs ! ib) = sub_id targetSubtask"
  shows "\<exists>subs' k.
      handleSubtaskDrop s targetTaskId targetSubtask =
        Inr (s\<lparr>tasks := (tasks s)[i := (tasks s ! i)\<lparr>subtasks := Some subs'\<rparr>],
               db_calls := db_calls s @ [UpdateTask ((tasks s ! i)\<lparr>subtasks := Some subs'\<rparr>)],
               dragOverInfo := None\<rparr>)
      \<and> mset subs' = mset subs
      \<and> filter (\<lambda>x. sub_id x \<noteq> sub_id sourceSubtask) subs'
          = filter (\<lambda>x. sub_id x \<noteq> sub_id sourceSubtask) subs
      \<and> Suc k < length subs'
      \<and> (if map_option snd (dragOverInfo s) = Some Top
          then subs' ! k = subs ! ia \<and> subs' ! Suc k = subs ! ib
          else subs' ! k = subs ! ib \<and> subs' ! Suc k = subs ! ia)"
proof -
  have neq: "ia \<noteq> ib" using ne ia ib by auto
  note p = reorder_props[OF ia(1) ib(1) neq]
  let ?b = "map_option snd (dragOverInfo s) = Some Top"
  let ?subs' = "reorder ?b ia ib subs"
  let ?k = "if ia < ib then ib - 1 else ib"
  have 1: "handleSubtaskDrop s targetTaskId targetSubtask =
        Inr (s\<lparr>tasks := (tasks s)[i := (tasks s ! i)\<lparr>subtasks := Some ?subs'\<rparr>],
               db_calls := db_calls s @ [UpdateTask ((tasks s ! i)\<lparr>subtasks := Some ?subs'\<rparr>)],
               dragOverInfo := None\<rparr>)"
    using assms by (rule handleSubtaskDrop_reorder)
  have 2: "mset ?subs' = mset subs" by (rule p(1))
  have 3: "filter (\<lambda>x. sub_id x \<noteq> sub_id sourceSubtask) ?subs'
          = filter (\<lambda>x. sub_id x \<noteq> sub_id sourceSubtask) subs"
    using ia(2) by (intro p(2)) simp
  have 4: "Suc ?k < length ?subs'" by (rule p(3))
  have 5: "if ?b then ?subs' ! ?k = subs ! ia \<and> ?subs' ! Suc ?k = subs ! ib
          else ?subs' ! ?k = subs ! ib \<and> ?subs' ! Suc ?k = subs ! ia"
    using p(4-7) by (cases ?b) simp_all
  show ?thesis
    using 1 2 3 4 5 by blast
qed

subsection \<open>Breaking a task down\<close>

lemma newSubtasks_length: "length (newSubtasks now xs) = length xs"
  by (simp add: newSubtasks_def)

lemma newSubtasks_nth:
  "i < length xs \<Longrightarrow>
     newSubtasks now xs ! i = \<lparr>sub_id = now i + int i, sub_text = xs ! i, sub_completed = False\<rparr>"
  by (simp add: newSubtasks_def)

lemma newSubtasks_distinct:
  assumes "\<And>i j. i \<le> j \<Longrightarrow> now i \<le> now j"
  shows "distinct (map sub_id (newSubtasks now xs))"
proof -
  have "\<And>i j. i < length xs \<Longrightarrow> j < length xs \<Longrightarrow> i \<noteq> j \<Longrightarrow> now i + int i \<noteq> now j + int j"
  proof -
    fix i j :: nat assume "i \<noteq> j"
    then consider "i < j" | "j < i" by linarith
    then show "now i + int i \<noteq> now j + int j"
    proof cases
      case 1
      then have "now i \<le> now j" using assms by simp
      then show ?thesis using 1 by simp
    next
      case 2
      then have "now j \<le> now i" using assms by simp
      then show ?thesis using 2 by simp
    qed
  qed
  then show ?thesis
    by (simp add: distinct_conv_nth newSubtasks_length newSubtasks_nth)
qed

lemma newSubtasks_ids_ge:
  assumes "\<And>i j. i \<le> j \<Longrightarrow> now i \<le> now j" "st \<in> set (newSubtasks now xs)"
  shows "now 0 \<le> sub_id st"
proof -
  obtain i where i: "i < length xs" "st = newSubtasks now xs ! i"
    using assms(2) by (metis in_set_conv_nth newSubtasks_length)
  have "now 0 \<le> now i" using assms(1) by simp
  then show ?thesis using i by (simp add: newSubtasks_nth)
qed

lemma newSubtasks_distinct_append:
  assumes "\<And>i j. i \<le> j \<Longrightarrow> now i \<le> now j" "distinct (map sub_id old)"
    "\<forall>st \<in> set old. sub_id st < now 0"
  shows "distinct (map sub_id (old @ newSubtasks now xs))"
proof -
  have "sub_id ` set old \<inter> sub_id ` set (newSubtasks now xs) = {}"
  proof (rule ccontr)
    assume "sub_id ` set old \<inter> sub_id ` set (newSubtasks now xs) \<noteq> {}"
    then obtain a b where ab: "a \<in> set old" "b \<in> set (newSubtasks now xs)" "sub_id a = sub_id b"
      by auto
    have "sub_id a < now 0" using assms(3) ab(1) by simp
    moreover have "now 0 \<le> sub_id b" using assms(1) ab(2) by (rule newSubtasks_ids_ge)
    ultimately show False using ab(3) by simp
  qed
  then show ?thesis
    using assms(2) newSubtasks_distinct[of now xs] assms(1) by simp
qed

lemma subtaskTexts_Some:
  "subtaskTexts v = Some xs \<longleftrightarrow>
     (\<exists>kvs. v = JObj kvs \<and> get_property kvs ''subtasks'' = Some (JArr xs) \<and> xs \<noteq> [])"
  by (auto simp: subtaskTexts_def read_subtasks_def or_empty_array_def mapped_texts_def
      split: jsval.splits option.splits if_splits)

lemma breakdown_unchanged:
  assumes "\<forall>kvs xs. response = Parsed (JObj kvs) \<and> get_property kvs ''subtasks'' = Some (JArr xs)
             \<longrightarrow> xs = []"
  shows "handleBreakdownTask s task response now = s\<lparr>openMenuId := None, loadingTaskId := None\<rparr>"
proof (cases response)
  case (Parsed v)
  have "subtaskTexts v = None"
  proof (cases "subtaskTexts v")
    case (Some xs)
    then show ?thesis using subtaskTexts_Some[of v xs] assms Parsed by blast
  qed simp
  then show ?thesis using Parsed by (simp add: handleBreakdownTask_def)
qed (simp_all add: handleBreakdownTask_def)

lemma breakdown_appends:
  assumes "response = Parsed (JObj kvs)" "get_property kvs ''subtasks'' = Some (JArr xs)" "xs \<noteq> []"
  shows "handleBreakdownTask s task response now =
     s\<lparr>openMenuId := None, loadingTaskId := None,
       tasks := sortTasks (replace_task (task_id task)
          (task\<lparr>subtasks := Some ((case subtasks task of Some old \<Rightarrow> old | None \<Rightarrow> []) @ newSubtasks now xs)\<rparr>)
          (tasks s)),
       db_calls := db_calls s @ [UpdateTask
          (task\<lparr>subtasks := Some ((case subtasks task of Some old \<Rightarrow> old | None \<Rightarrow> []) @ newSubtasks now xs)\<rparr>)]\<rparr>"
proof -
  have "subtaskTexts (JObj kvs) = Some xs" using assms(2,3) subtaskTexts_Some by blast
  then show ?thesis using assms(1) by (simp add: handleBreakdownTask_def Let_def)
qed

subsection \<open>Shopping list items\<close>

text \<open>
  Every handler of the shopping list but the pricing step keeps the invariant of the items,
  and the pricing step keeps it whenever the product of the two numbers is not \<^verbatim>\<open>NaN\<close>:
  that is, unless the quantity is infinite and the unit price is zero.
\<close>

lemma all_items_map_replace:
  assumes "all_items_invariant td xs" "item_invariant td u"
  shows "all_items_invariant td (map (\<lambda>i. if item_id i = k then u else i) xs)"
  using assms by (auto simp: all_items_invariant_def)

lemma reopened_invariant:
  "item_invariant td (item\<lparr>item_completed := False, quantity := None, unitPrice := None, totalPrice := None\<rparr>)"
  by (simp add: item_invariant_def)

lemma add_invariant:
  "all_items_invariant td (items s) \<Longrightarrow> all_items_invariant td (items (handleAddItem s now))"
  by (simp add: handleAddItem_def Let_def all_items_invariant_def item_invariant_def)

lemma checkmark_invariant:
  "all_items_invariant td (items s) \<Longrightarrow>
     all_items_invariant td (items (handleCheckmarkClick toString s item))"
  by (simp add: handleCheckmarkClick_def Let_def all_items_map_replace reopened_invariant)

lemma delete_item_invariant:
  "all_items_invariant td (items s) \<Longrightarrow> all_items_invariant td (items (handleDeleteItem s i))"
  by (simp add: handleDeleteItem_def all_items_invariant_def)

lemma clear_invariant:
  "all_items_invariant td (items s) \<Longrightarrow> all_items_invariant td (items (confirmClearList s cleared))"
  by (simp add: confirmClearList_def all_items_invariant_def)

lemma js_mul_not_NaN:
  assumes "\<not> isNaN q" "js_less (Finite 0) q" "\<not> isNaN p" "js_le (Finite 0) p"
    "\<not> (q = PosInf \<and> p = Finite 0)" "\<And>r. td r \<noteq> NaN"
  shows "js_mul td q p \<noteq> NaN"
proof (cases q)
  case NaN
  then show ?thesis using assms(1) by (simp add: isNaN_def)
next
  case NegInf
  then show ?thesis using assms(2) by (simp add: js_less_def)
next
  case PosInf
  show ?thesis
  proof (cases p)
    case (Finite b)
    then have "0 < b" using assms(4,5) PosInf by (auto simp: js_le_def js_less_def js_eq_def)
    then show ?thesis using PosInf Finite by (simp add: js_mul_def js_sign_def)
  qed (use assms(3,4) PosInf in \<open>simp_all add: isNaN_def js_mul_def js_sign_def js_le_def js_less_def js_eq_def\<close>)
next
  case (Finite a)
  then have a: "0 < a" using assms(2) by (simp add: js_less_def)
  show ?thesis
  proof (cases p)
    case (Finite b)
    then show ?thesis using \<open>q = Finite a\<close> assms(6) by (simp add: js_mul_def)
  qed (use assms(3,4) a \<open>q = Finite a\<close> in \<open>simp_all add: isNaN_def js_mul_def js_sign_def js_le_def js_less_def js_eq_def\<close>)
qed

lemma js_le_zero_NaN: "\<not> js_le NaN (Finite 0)"
  by (simp add: js_le_def js_less_def js_eq_def)

lemma total_is_product:
  assumes "\<not> js_le (modalItemTotal td parseFloat s) (Finite 0)"
  shows "modalItemTotal td parseFloat s =
     js_mul td (parseFloat (replace_comma (quantity_field s)))
       (parseFloat (replace_comma (unitPrice_field s)))
   \<and> \<not> isNaN (parseFloat (replace_comma (quantity_field s)))
   \<and> js_less (Finite 0) (parseFloat (replace_comma (quantity_field s)))
   \<and> \<not> isNaN (parseFloat (replace_comma (unitPrice_field s)))
   \<and> js_le (Finite 0) (parseFloat (replace_comma (unitPrice_field s)))"
proof -
  have z: "js_le (Finite 0) (Finite 0)" by (simp add: js_le_def js_eq_def)
  show ?thesis
    using assms z unfolding modalItemTotal_def Let_def by (auto split: if_splits)
qed

lemma confirm_invariant:
  assumes "all_items_invariant td (items s)" "\<And>r. td r \<noteq> NaN"
    "\<not> (parseFloat (replace_comma (quantity_field s)) = PosInf
        \<and> parseFloat (replace_comma (unitPrice_field s)) = Finite 0)"
  shows "all_items_invariant td (items (handleModalConfirm td parseFloat s))"
proof (cases "modalItem s")
  case None
  then show ?thesis using assms(1) by (simp add: handleModalConfirm_def)
next
  case (Some m)
  show ?thesis
  proof (cases "js_le (modalItemTotal td parseFloat s) (Finite 0)")
    case True
    then show ?thesis using Some assms(1) by (simp add: handleModalConfirm_def)
  next
    case False
    let ?q = "parseFloat (replace_comma (quantity_field s))"
    let ?p = "parseFloat (replace_comma (unitPrice_field s))"
    note t = total_is_product[OF False]
    have "js_mul td ?q ?p \<noteq> NaN" using t assms(2,3) by (intro js_mul_not_NaN) simp_all
    then have "item_invariant td (m\<lparr>item_completed := True, quantity := Some ?q, unitPrice := Some ?p,
        totalPrice := Some (modalItemTotal td parseFloat s)\<rparr>)"
      using t by (simp add: item_invariant_def js_eq_def)
    then show ?thesis using Some False assms(1)
      by (simp add: handleModalConfirm_def Let_def all_items_map_replace)
  qed
qed

lemma confirm_example:
  assumes "modalItem s = Some m"
    "parseFloat (replace_comma (quantity_field s)) = Finite 3"
    "parseFloat (replace_comma (unitPrice_field s)) = Finite 2.5"
    "td 7.5 = Finite 7.5"
  shows "items (handleModalConfirm td parseFloat s) =
      map (\<lambda>item. if item_id item = item_id m
            then m\<lparr>item_completed := True, quantity := Some (Finite 3),
                   unitPrice := Some (Finite 2.5), totalPrice := Some (Finite 7.5)\<rparr>
            else item) (items s)"
proof -
  have "(3::rat) * 2.5 = 7.5" by simp
  then have tot: "modalItemTotal td parseFloat s = Finite 7.5"
    using assms(2-4)
    by (simp add: modalItemTotal_def Let_def isNaN_def js_less_def js_le_def js_eq_def js_mul_def)
  then have "\<not> js_le (modalItemTotal td parseFloat s) (Finite 0)"
    by (simp add: js_le_def js_less_def js_eq_def)
  then show ?thesis
    using assms(1-3) tot by (simp add: handleModalConfirm_def Let_def)
qed

lemma reopen_clears:
  assumes "item_completed item" "i \<in> set (items (handleCheckmarkClick toString s item))"
    "item_id i = item_id item"
  shows "\<not> item_completed i \<and> quantity i = None \<and> unitPrice i = None \<and> totalPrice i = None"
  using assms by (auto simp: handleCheckmarkClick_def Let_def)

subsection \<open>What saving and toggling put into the list\<close>

lemma toggle_result:
  "\<exists>u. tasks (handleToggleTask tz s task today) = sortTasks (replace_task (task_id task) u (tasks s))
     \<and> db_calls (handleToggleTask tz s task today) = db_calls s @ [UpdateTask u]
     \<and> task_id u = task_id task \<and> recurring u = recurring task
     \<and> (recurring task \<noteq> None \<longrightarrow> \<not> completed u)
     \<and> (recurring task = None \<longrightarrow> completed u = (\<not> completed task))"
proof (cases "recurring task")
  case None
  then show ?thesis
    by (intro exI[of _ "task\<lparr>completed := \<not> completed task\<rparr>"])
       (simp add: handleToggleTask_def Let_def)
next
  case (Some f)
  show ?thesis
  proof (cases "completed task")
    case True
    then show ?thesis using Some
      by (intro exI[of _ "task\<lparr>completed := False\<rparr>"]) (simp add: handleToggleTask_def Let_def)
  next
    case False
    then show ?thesis using Some
      by (intro exI[of _ "task\<lparr>dueDate := Some (calculateNextDueDate tz
                      (case truthy_dueDate task of None \<Rightarrow> today | Some d \<Rightarrow> d) f),
                   subtasks := map_option (map (\<lambda>st. st\<lparr>sub_completed := False\<rparr>)) (subtasks task)\<rparr>"])
         (simp add: handleToggleTask_def Let_def)
  qed
qed

lemma edit_result:
  assumes "editingTask s = Some e" "trim (formText s) \<noteq> []"
  shows "\<exists>u. tasks (handleSaveTask s added) = sortTasks (replace_task (task_id e) u (tasks s))
     \<and> db_calls (handleSaveTask s added) = db_calls s @ [UpdateTask u]
     \<and> task_id u = task_id e
     \<and> (formIsRecurring s \<longrightarrow> \<not> completed u \<and> recurring u = Some (formRecurrenceFrequency s))
     \<and> (\<not> formIsRecurring s \<longrightarrow> recurring u = None)"
proof (cases "formIsRecurring s")
  case True
  then show ?thesis using assms
    by (intro exI[of _ "e\<lparr>task_text := formText s,
               dueDate := (if formDueDate s = [] then None else Some (formDueDate s)),
               importance := formImportance s,
               recurring := Some (formRecurrenceFrequency s), completed := False\<rparr>"])
       (simp add: handleSaveTask_def Let_def)
next
  case False
  then show ?thesis using assms
    by (intro exI[of _ "e\<lparr>task_text := formText s,
               dueDate := (if formDueDate s = [] then None else Some (formDueDate s)),
               importance := formImportance s, recurring := None\<rparr>"])
       (simp add: handleSaveTask_def Let_def)
qed

lemma replaced_active:
  assumes "\<forall>t \<in> set ts. task_id t \<noteq> i \<longrightarrow> recurring_active t" "recurring_active u"
  shows "all_recurring_active (sortTasks (replace_task i u ts))"
  unfolding all_recurring_active_def set_sortTasks
proof
  fix t assume "t \<in> set (replace_task i u ts)"
  then show "recurring_active t" using replace_task_mem[of t i u ts] assms by blast
qed

lemma replaced_present:
  assumes "\<exists>x \<in> set ts. task_id x = i" "task_id u = i"
  shows "\<exists>t \<in> set (sortTasks (replace_task i u ts)). t = u \<and> task_id t = i"
  using assms replace_task_hit[of _ ts i u] by (auto simp: set_sortTasks)

lemma toggle_restores:
  assumes "\<forall>t \<in> set (tasks s). task_id t \<noteq> task_id task \<longrightarrow> recurring_active t"
  shows "all_recurring_active (tasks (handleToggleTask tz s task today))"
proof -
  obtain u where u: "tasks (handleToggleTask tz s task today) =
      sortTasks (replace_task (task_id task) u (tasks s))"
    "recurring u = recurring task" "recurring task \<noteq> None \<longrightarrow> \<not> completed u"
    using toggle_result[of tz s task today] by blast
  have "recurring_active u" using u(2,3) by (simp add: recurring_active_def)
  then show ?thesis unfolding u(1) using assms by (intro replaced_active) simp_all
qed

lemma toggle_recurring:
  assumes "recurring task \<noteq> None"
  shows "(\<forall>t \<in> set (tasks (handleToggleTask tz s task today)). task_id t = task_id task \<longrightarrow>
           \<not> completed t \<and> recurring t = recurring task)
     \<and> ((\<exists>x \<in> set (tasks s). task_id x = task_id task) \<longrightarrow>
           (\<exists>t \<in> set (tasks (handleToggleTask tz s task today)). task_id t = task_id task))
     \<and> (\<exists>u. last (db_calls (handleToggleTask tz s task today)) = UpdateTask u
           \<and> \<not> completed u \<and> recurring u = recurring task)"
proof -
  obtain u where u: "tasks (handleToggleTask tz s task today) =
      sortTasks (replace_task (task_id task) u (tasks s))"
    "db_calls (handleToggleTask tz s task today) = db_calls s @ [UpdateTask u]"
    "task_id u = task_id task" "recurring u = recurring task" "\<not> completed u"
    using toggle_result[of tz s task today] assms by blast
  have a: "\<forall>t \<in> set (tasks (handleToggleTask tz s task today)). task_id t = task_id task \<longrightarrow>
           \<not> completed t \<and> recurring t = recurring task"
    unfolding u(1) set_sortTasks using replace_task_mem[of _ "task_id task" u "tasks s"] u(4,5)
    by blast
  have b: "(\<exists>x \<in> set (tasks s). task_id x = task_id task) \<longrightarrow>
           (\<exists>t \<in> set (tasks (handleToggleTask tz s task today)). task_id t = task_id task)"
    unfolding u(1) using replaced_present[of "tasks s" "task_id task" u] u(3) by blast
  have c: "\<exists>v. last (db_calls (handleToggleTask tz s task today)) = UpdateTask v
           \<and> \<not> completed v \<and> recurring v = recurring task"
    using u(2,4,5) by simp
  show ?thesis using a b c by blast
qed

lemma edit_recurring:
  assumes "editingTask s = Some e" "trim (formText s) \<noteq> []" "formIsRecurring s"
  shows "(\<forall>t \<in> set (tasks (handleSaveTask s added)). task_id t = task_id e \<longrightarrow>
           \<not> completed t \<and> recurring t = Some (formRecurrenceFrequency s))
     \<and> ((\<exists>x \<in> set (tasks s). task_id x = task_id e) \<longrightarrow>
           (\<exists>t \<in> set (tasks (handleSaveTask s added)). task_id t = task_id e))
     \<and> (\<exists>u. last (db_calls (handleSaveTask s added)) = UpdateTask u
           \<and> \<not> completed u \<and> recurring u = Some (formRecurrenceFrequency s))"
proof -
  obtain u where u: "tasks (handleSaveTask s added) =
      sortTasks (replace_task (task_id e) u (tasks s))"
    "db_calls (handleSaveTask s added) = db_calls s @ [UpdateTask u]"
    "task_id u = task_id e" "\<not> completed u" "recurring u = Some (formRecurrenceFrequency s)"
    using edit_result[OF assms(1,2), of added] assms(3) by blast
  have a: "\<forall>t \<in> set (tasks (handleSaveTask s added)). task_id t = task_id e \<longrightarrow>
           \<not> completed t \<and> recurring t = Some (formRecurrenceFrequency s)"
    unfolding u(1) set_sortTasks using replace_task_mem[of _ "task_id e" u "tasks s"] u(4,5)
    by blast
  have b: "(\<exists>x \<in> set (tasks s). task_id x = task_id e) \<longrightarrow>
           (\<exists>t \<in> set (tasks (handleSaveTask s added)). task_id t = task_id e)"
    unfolding u(1) using replaced_present[of "tasks s" "task_id e" u] u(3) by blast
  have c: "\<exists>v. last (db_calls (handleSaveTask s added)) = UpdateTask v
           \<and> \<not> completed v \<and> recurring v = Some (formRecurrenceFrequency s)"
    using u(2,4,5) by simp
  show ?thesis using a b c by blast
qed

lemma create_incomplete:
  assumes "editingTask s = None" "trim (formText s) \<noteq> []"
  shows "\<exists>d. \<not> new_completed d \<and> \<not> completed (addTask d new_id)
     \<and> addTask d new_id \<in> set (tasks (handleSaveTask s (Some new_id)))
     \<and> last (db_calls (handleSaveTask s (Some new_id))) = AddTask d
     \<and> last (db_calls (handleSaveTask s None)) = AddTask d
     \<and> tasks (handleSaveTask s None) = tasks s"
  using assms
  by (intro exI[of _ "\<lparr>new_text = formText s, new_completed = False,
                     new_dueDate = (if formDueDate s = [] then None else Some (formDueDate s)),
                     new_importance = formImportance s,
                     new_recurring = (if formIsRecurring s then Some (formRecurrenceFrequency s)
                                      else None),
                     new_subtasks = Some []\<rparr>"])
     (simp add: handleSaveTask_def Let_def set_sortTasks addTask_def)

lemma save_blank: "trim (formText s) = [] \<Longrightarrow> handleSaveTask s added = s"
  by (simp add: handleSaveTask_def)

section \<open>C1: completing a recurring task\<close>

text \<open>
  Claim C1. Let \<open>task\<close> be recurring and not completed. Toggling its completion does not
  complete it: every task of the resulting list that carries its id is the given task with
  its due date replaced by the next occurrence of the due date (of \<open>today\<close> when the task has
  no due date, the empty string counting as none) at the task's frequency, and with every
  subtask set to not completed; it is not completed. That task is in the list whenever a
  task of that id was, the tasks of other ids are those of the list before, the list is a
  permutation of the list with the task replaced, and the updated task is what is handed to
  the store.
\<close>

theorem handleToggleTask_recurring:
  assumes "recurring task = Some f" "\<not> completed task"
  shows "let nextDue = calculateNextDueDate tz
                (case truthy_dueDate task of Some d \<Rightarrow> d | None \<Rightarrow> today) f;
             updated = task\<lparr>dueDate := Some nextDue,
                subtasks := map_option (map (\<lambda>st. st\<lparr>sub_completed := False\<rparr>)) (subtasks task)\<rparr>;
             s' = handleToggleTask tz s task today
         in (\<forall>t \<in> set (tasks s'). task_id t = task_id task \<longrightarrow>
               t = updated \<and> \<not> completed t \<and> dueDate t = Some nextDue
               \<and> (\<forall>ss. subtasks t = Some ss \<longrightarrow> (\<forall>st \<in> set ss. \<not> sub_completed st)))
          \<and> (\<forall>t \<in> set (tasks s'). task_id t \<noteq> task_id task \<longrightarrow> t \<in> set (tasks s))
          \<and> ((\<exists>t \<in> set (tasks s). task_id t = task_id task) \<longrightarrow> updated \<in> set (tasks s'))
          \<and> mset (tasks s') = mset (replace_task (task_id task) updated (tasks s))
          \<and> db_calls s' = db_calls s @ [UpdateTask updated]
          \<and> \<not> completed updated
          \<and> (\<forall>ss. subtasks updated = Some ss \<longrightarrow> (\<forall>st \<in> set ss. \<not> sub_completed st))"
proof -
  define nextDue where "nextDue = calculateNextDueDate tz
                (case truthy_dueDate task of Some d \<Rightarrow> d | None \<Rightarrow> today) f"
  define updated where "updated = task\<lparr>dueDate := Some nextDue,
                subtasks := map_option (map (\<lambda>st. st\<lparr>sub_completed := False\<rparr>)) (subtasks task)\<rparr>"
  define s' where "s' = handleToggleTask tz s task today"
  have ts: "tasks s' = sortTasks (replace_task (task_id task) updated (tasks s))"
    and db: "db_calls s' = db_calls s @ [UpdateTask updated]"
    using assms by (simp_all add: s'_def updated_def nextDue_def handleToggleTask_def Let_def)
  have uc: "\<not> completed updated" using assms(2) by (simp add: updated_def)
  have ud: "dueDate updated = Some nextDue" by (simp add: updated_def)
  have us: "\<forall>ss. subtasks updated = Some ss \<longrightarrow> (\<forall>st \<in> set ss. \<not> sub_completed st)"
    by (cases "subtasks task") (auto simp: updated_def)
  have a: "\<forall>t \<in> set (tasks s'). task_id t = task_id task \<longrightarrow>
               t = updated \<and> \<not> completed t \<and> dueDate t = Some nextDue
               \<and> (\<forall>ss. subtasks t = Some ss \<longrightarrow> (\<forall>st \<in> set ss. \<not> sub_completed st))"
  proof (intro ballI impI)
    fix t assume "t \<in> set (tasks s')" "task_id t = task_id task"
    then have "t = updated" using replace_task_mem[of t "task_id task" updated "tasks s"]
      by (auto simp: ts set_sortTasks)
    then show "t = updated \<and> \<not> completed t \<and> dueDate t = Some nextDue
               \<and> (\<forall>ss. subtasks t = Some ss \<longrightarrow> (\<forall>st \<in> set ss. \<not> sub_completed st))"
      using uc ud us by simp
  qed
  have uid: "task_id updated = task_id task" by (simp add: updated_def)
  have b: "\<forall>t \<in> set (tasks s'). task_id t \<noteq> task_id task \<longrightarrow> t \<in> set (tasks s)"
  proof (intro ballI impI)
    fix t assume "t \<in> set (tasks s')" "task_id t \<noteq> task_id task"
    then show "t \<in> set (tasks s)"
      using replace_task_mem[of t "task_id task" updated "tasks s"] uid
      by (auto simp: ts set_sortTasks)
  qed
  have c: "(\<exists>t \<in> set (tasks s). task_id t = task_id task) \<longrightarrow> updated \<in> set (tasks s')"
    using replace_task_hit[of _ "tasks s" "task_id task" updated] by (auto simp: ts set_sortTasks)
  have d: "mset (tasks s') = mset (replace_task (task_id task) updated (tasks s))"
    by (simp add: ts mset_sortTasks)
  show ?thesis
    unfolding Let_def nextDue_def[symmetric] updated_def[symmetric] s'_def[symmetric]
    using a b c d db uc us by blast
qed

text \<open>
  A monthly task due on 15 January 2024 with one of its two subtasks done, in a list
  with one other task: it comes back due on 15 February with both subtasks open (and, being
  of high importance, sorts first).
\<close>

theorem handleToggleTask_recurring_witness:
  "recurring (ex_recurring False [ex_subtask 1 True, ex_subtask 2 False]) = Some monthly
   \<and> \<not> completed (ex_recurring False [ex_subtask 1 True, ex_subtask 2 False])
   \<and> db_calls (handleToggleTask utc_zone
        (ex_state [ex_task ''a'' False None, ex_recurring False [ex_subtask 1 True, ex_subtask 2 False]])
        (ex_recurring False [ex_subtask 1 True, ex_subtask 2 False]) ''2024-06-01'')
      = [UpdateTask ((ex_recurring False [ex_subtask 1 False, ex_subtask 2 False])
           \<lparr>dueDate := Some ''2024-02-15''\<rparr>)]
   \<and> tasks (handleToggleTask utc_zone
        (ex_state [ex_task ''a'' False None, ex_recurring False [ex_subtask 1 True, ex_subtask 2 False]])
        (ex_recurring False [ex_subtask 1 True, ex_subtask 2 False]) ''2024-06-01'')
      = [(ex_recurring False [ex_subtask 1 False, ex_subtask 2 False])\<lparr>dueDate := Some ''2024-02-15''\<rparr>,
         ex_task ''a'' False None]"
proof -
  let ?t = "ex_recurring False [ex_subtask 1 True, ex_subtask 2 False]"
  let ?s = "ex_state [ex_task ''a'' False None, ?t]"
  have h1: "recurring ?t = Some monthly" by (simp add: ex_recurring_def)
  have h2: "\<not> completed ?t" by (simp add: ex_recurring_def)
  note t = handleToggleTask_recurring[OF h1 h2, of utc_zone "''2024-06-01''" ?s, unfolded Let_def]
  have e: "db_calls ?s @ [UpdateTask (?t\<lparr>dueDate := Some (calculateNextDueDate utc_zone
                (case truthy_dueDate ?t of Some d \<Rightarrow> d | None \<Rightarrow> ''2024-06-01'') monthly),
             subtasks := map_option (map (\<lambda>st. st\<lparr>sub_completed := False\<rparr>)) (subtasks ?t)\<rparr>)]
      = [UpdateTask ((ex_recurring False [ex_subtask 1 False, ex_subtask 2 False])
           \<lparr>dueDate := Some ''2024-02-15''\<rparr>)]"
    by code_simp
  have r: "db_calls (handleToggleTask utc_zone ?s ?t ''2024-06-01'')
      = [UpdateTask ((ex_recurring False [ex_subtask 1 False, ex_subtask 2 False])
           \<lparr>dueDate := Some ''2024-02-15''\<rparr>)]"
    using t unfolding e by blast
  have v: "tasks (handleToggleTask utc_zone ?s ?t ''2024-06-01'')
      = [(ex_recurring False [ex_subtask 1 False, ex_subtask 2 False])\<lparr>dueDate := Some ''2024-02-15''\<rparr>,
         ex_task ''a'' False None]"
    by code_simp
  show ?thesis using h1 h2 r v by blast
qed

section \<open>C2: the next occurrence of a date\<close>

text \<open>
  Claim C2, as amended. Let \<open>s\<close> be a string in \<^verbatim>\<open>YYYY-MM-DD\<close> form with a month \<open>m\<close> from
  01 to 12 and a day \<open>d\<close> from 01 to 31, and let \<open>n\<close> be the number of the day it is read as:
  the day \<open>d\<close> of that month, where the days past the end of the month count into the next
  month (\<open>y0\<close>, \<open>m0\<close>, \<open>d0\<close> are the year, the month from 0 and the day of the date read, which
  is the date written when the month has a day \<open>d\<close>). Let \<open>n'\<close> be the day that the setter for
  the frequency aims at, and let the time zone be such that 12:00:00 local time exists on the
  days \<open>n\<close> and \<open>n'\<close>. Then \<open>calculateNextDueDate\<close> reads \<open>s\<close> as 12:00:00 local time of the
  day \<open>n\<close>, the \<^verbatim>\<open>Date\<close> it advances shows 12:00:00 local time of the day \<open>n'\<close>, and the result
  is the year of that day in plain decimal, a hyphen, its month in two digits, a hyphen and
  its day of the month in two digits, read by the getters of local time. The day \<open>n'\<close> is
  \<open>n + 1\<close> for \<open>daily\<close> and \<open>n + 7\<close> for \<open>weekly\<close>. For \<open>monthly\<close> it is the same day of the
  month in the next month, and where that month is too short the days beyond its end are
  counted into the month after it (no clamping). For \<open>yearly\<close> it is the same day and month
  of the next year, and 1 March for a 29 February whose next year has none. The result is
  again in \<^verbatim>\<open>YYYY-MM-DD\<close> form, and is read as the day \<open>n'\<close>, whenever the year of that day
  lies between 1000 and 9999: the year is not padded.
\<close>

theorem calculateNextDueDate_next_occurrence:
  assumes "parse_ymd s = Some (y, m, d)"
    and "local_time_exists tz (midday (MakeDay y (m - 1) d))"
    and "local_time_exists tz (midday (next_day_number f (MakeDay y (m - 1) d)))"
  shows "let n = MakeDay y (m - 1) d; n' = next_day_number f n;
             date = advance tz f (UTC tz (midday n)) in
     case (civil_of_day n, civil_of_day n') of ((y0, m0, d0), (y', m', d')) \<Rightarrow>
       new_Date tz (s @ ''T12:00:00'') = Some (UTC tz (midday n))
     \<and> (y0, m0, d0) = (if d \<le> DaysInMonth y (m - 1) then (y, m - 1, d)
                        else (y, m, d - DaysInMonth y (m - 1)))
     \<and> Day (LocalTime tz date) = n'
     \<and> TimeWithinDay (LocalTime tz date) = MakeTime 12 0 0 0
     \<and> (getFullYear tz date, getMonth tz date, getDate tz date) = (y', m', d')
     \<and> calculateNextDueDate tz s f = String y' @ ''-'' @ two_digits (m' + 1) @ ''-'' @ two_digits d'
     \<and> 0 \<le> m' \<and> m' \<le> 11 \<and> 1 \<le> d' \<and> d' \<le> DaysInMonth y' m'
     \<and> MakeDay y' m' d' = n'
     \<and> (case f of
          daily \<Rightarrow> n' = n + 1
        | weekly \<Rightarrow> n' = n + 7
        | monthly \<Rightarrow>
            (y', m', d') =
              (if m0 = 11 then (y0 + 1, 0, d0)
               else if d0 \<le> DaysInMonth y0 (m0 + 1) then (y0, m0 + 1, d0)
               else (y0, m0 + 2, d0 - DaysInMonth y0 (m0 + 1)))
        | yearly \<Rightarrow>
            (y', m', d') =
              (if d0 \<le> DaysInMonth (y0 + 1) m0 then (y0 + 1, m0, d0) else (y0 + 1, 2, 1)))
     \<and> (1000 \<le> y' \<and> y' \<le> 9999 \<longrightarrow>
          parse_ymd (calculateNextDueDate tz s f) = Some (y', m' + 1, d'))"
proof -
  define n where "n = MakeDay y (m - 1) d"
  define n' where "n' = next_day_number f n"
  define date where "date = advance tz f (UTC tz (midday n))"
  obtain y0 m0 d0 where c0: "civil_of_day n = (y0, m0, d0)" by (cases "civil_of_day n")
  obtain y' m' d' where c': "civil_of_day n' = (y', m', d')" by (cases "civil_of_day n'")
  note p = parse_ymd_SomeD[OF assms(1)]
  note ex = assms(2)[folded n_def] and ex' = assms(3)[folded n_def n'_def]
  have dt: "date = UTC tz (midday n')"
    unfolding date_def n'_def using ex by (rule advance_midday)
  have lt: "LocalTime tz date = midday n'"
    using ex' by (simp add: dt local_time_exists_def)
  have k1: "new_Date tz (s @ ''T12:00:00'') = Some (UTC tz (midday n))"
    unfolding n_def using assms(1) by (rule new_Date_midday)
  have k2: "(y0, m0, d0) = (if d \<le> DaysInMonth y (m - 1) then (y, m - 1, d)
                        else (y, m, d - DaysInMonth y (m - 1)))"
    using date_read[OF p(2-5), of y] by (simp add: c0[symmetric] n_def)
  have k3: "Day (LocalTime tz date) = n'" "TimeWithinDay (LocalTime tz date) = MakeTime 12 0 0 0"
    by (simp_all add: lt Day_midday)
  have k4: "(getFullYear tz date, getMonth tz date, getDate tz date) = (y', m', d')"
    using getters_midday[OF ex'] by (simp add: dt c')
  have k5: "calculateNextDueDate tz s f = String y' @ ''-'' @ two_digits (m' + 1) @ ''-'' @ two_digits d'"
    using assms c' unfolding n'_def n_def by (rule calculateNextDueDate_format)
  have v: "0 \<le> m'" "m' \<le> 11" "1 \<le> d'" "d' \<le> DaysInMonth y' m'"
    using civil_of_day_props(1)[of n'] by (simp_all add: c' valid_civil_def)
  have k7: "MakeDay y' m' d' = n'"
    using civil_of_day_props(2)[of n'] by (simp add: c' MakeDay_day_of[OF v(1,2)])
  have k8: "case f of
          daily \<Rightarrow> n' = n + 1
        | weekly \<Rightarrow> n' = n + 7
        | monthly \<Rightarrow>
            (y', m', d') =
              (if m0 = 11 then (y0 + 1, 0, d0)
               else if d0 \<le> DaysInMonth y0 (m0 + 1) then (y0, m0 + 1, d0)
               else (y0, m0 + 2, d0 - DaysInMonth y0 (m0 + 1)))
        | yearly \<Rightarrow>
            (y', m', d') =
              (if d0 \<le> DaysInMonth (y0 + 1) m0 then (y0 + 1, m0, d0) else (y0 + 1, 2, 1))"
  proof (cases f)
    case daily
    then show ?thesis by (simp add: n'_def next_day_number_daily)
  next
    case weekly
    then show ?thesis by (simp add: n'_def next_day_number_weekly)
  next
    case monthly
    then show ?thesis using next_monthly[OF c0] c' by (simp add: n'_def)
  next
    case yearly
    then show ?thesis using next_yearly[OF c0] c' by (simp add: n'_def)
  qed
  have d31: "d' \<le> 31" using v(4) DaysInMonth_bounds(2)[of y' m'] by simp
  have k9: "1000 \<le> y' \<and> y' \<le> 9999 \<longrightarrow>
          parse_ymd (calculateNextDueDate tz s f) = Some (y', m' + 1, d')"
    using parse_ymd_format[of y' "m' + 1" d'] v d31 unfolding k5 by simp
  show ?thesis
    unfolding Let_def n_def[symmetric] n'_def[symmetric] date_def[symmetric] c0 c' prod.case
    using k1 k2 k3 k4 k5 v k7 k8 k9 by blast
qed

text \<open>
  The two literal outputs of the claim, obtained from the theorem: 15 January 2024 advanced
  by a month in the zone of UTC, and 31 December 2024 advanced by a day in a zone that is
  14 hours ahead of UTC. There the result is 1 January 2025 although the time value of the
  advanced \<^verbatim>\<open>Date\<close> still lies on 31 December 2024 in UTC.
\<close>

theorem calculateNextDueDate_next_occurrence_witness:
  "parse_ymd ''2024-01-15'' = Some (2024, 1, 15)
   \<and> local_time_exists utc_zone (midday (MakeDay 2024 (1 - 1) 15))
   \<and> local_time_exists utc_zone (midday (next_day_number monthly (MakeDay 2024 (1 - 1) 15)))
   \<and> calculateNextDueDate utc_zone ''2024-01-15'' monthly = ''2024-02-15''
   \<and> parse_ymd ''2024-12-31'' = Some (2024, 12, 31)
   \<and> local_time_exists (fixed_zone 50400000) (midday (MakeDay 2024 (12 - 1) 31))
   \<and> local_time_exists (fixed_zone 50400000) (midday (next_day_number daily (MakeDay 2024 (12 - 1) 31)))
   \<and> calculateNextDueDate (fixed_zone 50400000) ''2024-12-31'' daily = ''2025-01-01''
   \<and> parse_ymd (calculateNextDueDate (fixed_zone 50400000) ''2024-12-31'' daily) = Some (2025, 1, 1)
   \<and> next_day_number daily (MakeDay 2024 (12 - 1) 31) = MakeDay 2024 (12 - 1) 31 + 1
   \<and> civil_of_day (Day (advance (fixed_zone 50400000) daily (UTC (fixed_zone 50400000) (midday (MakeDay 2024 (12 - 1) 31)))))
      = (2024, 11, 31)"
proof -
  have u: "civil_of_day (Day (advance (fixed_zone 50400000) daily (UTC (fixed_zone 50400000) (midday (MakeDay 2024 (12 - 1) 31)))))
      = (2024, 11, 31)"
    by code_simp
  have h1: "parse_ymd ''2024-01-15'' = Some (2024, 1, 15)" by code_simp
  have h2: "local_time_exists utc_zone (midday (MakeDay 2024 (1 - 1) 15))" by code_simp
  have h3: "local_time_exists utc_zone (midday (next_day_number monthly (MakeDay 2024 (1 - 1) 15)))"
    by code_simp
  have g1: "parse_ymd ''2024-12-31'' = Some (2024, 12, 31)" by code_simp
  have g2: "local_time_exists (fixed_zone 50400000) (midday (MakeDay 2024 (12 - 1) 31))" by code_simp
  have g3: "local_time_exists (fixed_zone 50400000) (midday (next_day_number daily (MakeDay 2024 (12 - 1) 31)))"
    by code_simp
  have a0: "civil_of_day (MakeDay 2024 (1 - 1) 15) = (2024, 0, 15)" by code_simp
  have a1: "civil_of_day (next_day_number monthly (MakeDay 2024 (1 - 1) 15)) = (2024, 1, 15)"
    by code_simp
  have b0: "civil_of_day (MakeDay 2024 (12 - 1) 31) = (2024, 11, 31)" by code_simp
  have b1: "civil_of_day (next_day_number daily (MakeDay 2024 (12 - 1) 31)) = (2025, 0, 1)"
    by code_simp
  have e1: "String 2024 @ ''-'' @ two_digits (1 + 1) @ ''-'' @ two_digits 15 = ''2024-02-15''"
    by code_simp
  have e2: "String 2025 @ ''-'' @ two_digits (0 + 1) @ ''-'' @ two_digits 1 = ''2025-01-01''"
    by code_simp
  note t1 = calculateNextDueDate_next_occurrence[OF h1 h2 h3, unfolded Let_def a0 a1 prod.case e1]
  note t2 = calculateNextDueDate_next_occurrence[OF g1 g2 g3, unfolded Let_def b0 b1 prod.case e2]
  have r1: "calculateNextDueDate utc_zone ''2024-01-15'' monthly = ''2024-02-15''"
    using t1 by blast
  have r2: "calculateNextDueDate (fixed_zone 50400000) ''2024-12-31'' daily = ''2025-01-01''"
    using t2 by blast
  have "(1000::int) \<le> 2025 \<and> (2025::int) \<le> 9999 \<longrightarrow>
      parse_ymd (calculateNextDueDate (fixed_zone 50400000) ''2024-12-31'' daily) = Some (2025, 0 + 1, 1)"
    using t2 by blast
  then have r3: "parse_ymd (calculateNextDueDate (fixed_zone 50400000) ''2024-12-31'' daily) = Some (2025, 1, 1)"
    by simp
  have r4: "next_day_number daily (MakeDay 2024 (12 - 1) 31) = MakeDay 2024 (12 - 1) 31 + 1"
    using t2 by simp
  show ?thesis using h1 h2 h3 g1 g2 g3 r1 r2 r3 r4 u by blast
qed

text \<open>
  C2 as stated fails in three ways. A date before the year 1000 is in \<^verbatim>\<open>YYYY-MM-DD\<close> form
  and its next occurrence, with a year of three digits, is not. A string of the form whose
  month is 13 is read as no date, and the result is \<^verbatim>\<open>NaN-NaN-NaN\<close>. And in the zone of
  Apia, where 30 December 2011 was skipped, \<open>daily\<close> adds two days: to 29 December 2011,
  whose next day does not exist, and to 30 December 2011, which is itself read as the 31st.
\<close>

theorem calculateNextDueDate_counterexample:
  "parse_ymd ''0999-01-01'' = Some (999, 1, 1)
   \<and> calculateNextDueDate utc_zone ''0999-01-01'' daily = ''999-01-02''
   \<and> length (calculateNextDueDate utc_zone ''0999-01-01'' daily) \<noteq> 10
   \<and> calculateNextDueDate utc_zone ''2024-13-01'' daily = ''NaN-NaN-NaN''
   \<and> calculateNextDueDate apia_zone ''2011-12-29'' daily = ''2011-12-31''
   \<and> calculateNextDueDate apia_zone ''2011-12-30'' daily = ''2012-01-01''"
  by code_simp

section \<open>C3: the order of the sorted list\<close>

text \<open>
  Claim C3 at an input where the code departs from it. Two tasks that are not completed,
  have the same importance and the same due date compare as equal (the comparator returns
  the difference of their times, 0, before it reaches the ids), so they stay in their order
  of input, here ascending by id; the claim asks for descending ids. Two such tasks without
  a due date do reach the comparison of ids and come out in descending order. Apart from
  this case the sorted list is in the order the claim describes, whenever the due dates
  are read as dates: tasks that are not completed come first, by rank of importance,
  then by due date with the dated ones first, and ids descend where the comparison reaches
  them (lemmas \<open>sortTasks_ordered\<close>, \<open>sortTasks_tiers\<close> and \<open>compareTasks_le_0D\<close>).
\<close>

theorem sortTasks_same_date_keeps_input_order:
  "sortTasks [ex_task ''a'' False (Some ''2024-01-15''), ex_task ''b'' False (Some ''2024-01-15'')]
     = [ex_task ''a'' False (Some ''2024-01-15''), ex_task ''b'' False (Some ''2024-01-15'')]
   \<and> compareTasks (ex_task ''a'' False (Some ''2024-01-15'')) (ex_task ''b'' False (Some ''2024-01-15'')) = 0
   \<and> ''a'' < ''b''
   \<and> sortTasks [ex_task ''a'' False None, ex_task ''b'' False None]
     = [ex_task ''b'' False None, ex_task ''a'' False None]"
  by code_simp

section \<open>C4: sorting is idempotent\<close>

text \<open>
  Claim C4. Sorting a sorted list of tasks gives the same list, for every list of tasks.
  (Where a due date does not parse the comparator is not a consistent ordering and
  ECMAScript leaves the order to the engine; the model sorts by insertion there too.)
\<close>

theorem sortTasks_idempotent: "sortTasks (sortTasks xs) = sortTasks xs"
  unfolding sortTasks_def
  by (rule array_sort_ascending) (rule successively_array_sort, rule compareTasks_anti)

section \<open>C5: toggling a subtask\<close>

text \<open>
  Claim C5. Toggling a subtask leaves every task at its index (the ids of the list read
  the same, position by position) and leaves every task of another id as it was. Where the
  ids of the tasks are distinct, as are the ids of the subtasks of the task concerned, the task
  at index \<open>i\<close> has the id given and its subtask at index \<open>j\<close> has the subtask id given, the
  resulting list is the list before with, at index \<open>i\<close> alone, the subtask at index \<open>j\<close>
  alone changed, and that in its completion flag alone, which is negated. No sorting is
  involved.
\<close>

theorem handleToggleSubtask_in_place:
  "map task_id (tasks (handleToggleSubtask s taskId subtaskId)) = map task_id (tasks s)
   \<and> (\<forall>k. k < length (tasks s) \<and> task_id (tasks s ! k) \<noteq> taskId \<longrightarrow>
          tasks (handleToggleSubtask s taskId subtaskId) ! k = tasks s ! k)
   \<and> (\<forall>i j subs.
          distinct (map task_id (tasks s)) \<and> i < length (tasks s) \<and> task_id (tasks s ! i) = taskId
          \<and> subtasks (tasks s ! i) = Some subs
          \<and> distinct (map sub_id subs) \<and> j < length subs \<and> sub_id (subs ! j) = subtaskId
          \<longrightarrow> tasks (handleToggleSubtask s taskId subtaskId) =
               (tasks s)[i := (tasks s ! i)\<lparr>subtasks :=
                  Some (subs[j := (subs ! j)\<lparr>sub_completed := \<not> sub_completed (subs ! j)\<rparr>])\<rparr>])"
  using handleToggleSubtask_ids[of s taskId subtaskId]
    handleToggleSubtask_others[of _ s taskId subtaskId]
    handleToggleSubtask_exact[of s _ taskId _ _ subtaskId]
  by blast

text \<open>
  Two tasks, the second with two subtasks: toggling its second subtask changes that
  flag and nothing else.
\<close>

theorem handleToggleSubtask_in_place_witness:
  "distinct (map task_id [ex_task ''a'' False None, ex_recurring False [ex_subtask 1 True, ex_subtask 2 False]])
   \<and> distinct (map sub_id [ex_subtask 1 True, ex_subtask 2 False])
   \<and> tasks (handleToggleSubtask
        (ex_state [ex_task ''a'' False None, ex_recurring False [ex_subtask 1 True, ex_subtask 2 False]])
        ''x'' 2)
      = [ex_task ''a'' False None, ex_recurring False [ex_subtask 1 True, ex_subtask 2 True]]"
proof -
  let ?subs = "[ex_subtask 1 True, ex_subtask 2 False]"
  let ?ts = "[ex_task ''a'' False None, ex_recurring False ?subs]"
  let ?s = "ex_state ?ts"
  have h: "distinct (map task_id (tasks ?s))" "(1::nat) < length (tasks ?s)"
    "task_id (tasks ?s ! 1) = ''x''" "subtasks (tasks ?s ! 1) = Some ?subs"
    "distinct (map sub_id ?subs)" "(1::nat) < length ?subs" "sub_id (?subs ! 1) = 2"
    by (simp_all add: ex_state_def ex_task_def ex_recurring_def ex_subtask_def)
  have d: "distinct (map task_id ?ts)" using h(1) by (simp add: ex_state_def)
  have "tasks (handleToggleSubtask ?s ''x'' 2) =
      (tasks ?s)[1 := (tasks ?s ! 1)\<lparr>subtasks :=
         Some (?subs[1 := (?subs ! 1)\<lparr>sub_completed := \<not> sub_completed (?subs ! 1)\<rparr>])\<rparr>]"
    using handleToggleSubtask_in_place[of ?s "''x''" 2] h by blast
  also have "\<dots> = [ex_task ''a'' False None, ex_recurring False [ex_subtask 1 True, ex_subtask 2 True]]"
    by (simp add: ex_state_def ex_task_def ex_recurring_def ex_subtask_def)
  finally show ?thesis using d h(5) by blast
qed

section \<open>C6: dropping a subtask next to another\<close>

text \<open>
  Claim C6. A drop whose source belongs to another task than the target, or whose source
  is the target, changes nothing. Otherwise, where the ids of the tasks are distinct, the
  task at index \<open>i\<close> is the target task, the ids of its subtasks are distinct, and the
  source and the target are its subtasks at indices \<open>ia\<close> and \<open>ib\<close>: the drop replaces the
  subtasks of that task alone by a list with the same elements as often, in which the
  subtasks other than the source keep their order, and in which the source comes
  immediately before the target when the drop is on the upper half (before), and
  immediately after it otherwise. The new order is what is handed to the store.
\<close>

theorem handleSubtaskDrop_moves_adjacent:
  "(\<forall>src. draggedSubtaskRef s = Some src
        \<and> (fst src \<noteq> targetTaskId \<or> sub_id (snd src) = sub_id targetSubtask)
      \<longrightarrow> handleSubtaskDrop s targetTaskId targetSubtask = Inr s)
   \<and> (\<forall>sourceSubtask i subs ia ib.
        draggedSubtaskRef s = Some (targetTaskId, sourceSubtask)
        \<and> sub_id sourceSubtask \<noteq> sub_id targetSubtask
        \<and> distinct (map task_id (tasks s)) \<and> i < length (tasks s)
        \<and> task_id (tasks s ! i) = targetTaskId
        \<and> subtasks (tasks s ! i) = Some subs \<and> distinct (map sub_id subs)
        \<and> ia < length subs \<and> sub_id (subs ! ia) = sub_id sourceSubtask
        \<and> ib < length subs \<and> sub_id (subs ! ib) = sub_id targetSubtask
      \<longrightarrow> (\<exists>subs' k.
            handleSubtaskDrop s targetTaskId targetSubtask =
              Inr (s\<lparr>tasks := (tasks s)[i := (tasks s ! i)\<lparr>subtasks := Some subs'\<rparr>],
                     db_calls := db_calls s @ [UpdateTask ((tasks s ! i)\<lparr>subtasks := Some subs'\<rparr>)],
                     dragOverInfo := None\<rparr>)
            \<and> mset subs' = mset subs
            \<and> filter (\<lambda>x. sub_id x \<noteq> sub_id sourceSubtask) subs'
                = filter (\<lambda>x. sub_id x \<noteq> sub_id sourceSubtask) subs
            \<and> Suc k < length subs'
            \<and> (if map_option snd (dragOverInfo s) = Some Top
                then subs' ! k = subs ! ia \<and> subs' ! Suc k = subs ! ib
                else subs' ! k = subs ! ib \<and> subs' ! Suc k = subs ! ia)))"
proof (intro conjI allI impI)
  fix src
  assume "draggedSubtaskRef s = Some src
        \<and> (fst src \<noteq> targetTaskId \<or> sub_id (snd src) = sub_id targetSubtask)"
  then show "handleSubtaskDrop s targetTaskId targetSubtask = Inr s"
    using handleSubtaskDrop_noop by blast
next
  fix sourceSubtask i subs ia ib
  assume h: "draggedSubtaskRef s = Some (targetTaskId, sourceSubtask)
        \<and> sub_id sourceSubtask \<noteq> sub_id targetSubtask
        \<and> distinct (map task_id (tasks s)) \<and> i < length (tasks s)
        \<and> task_id (tasks s ! i) = targetTaskId
        \<and> subtasks (tasks s ! i) = Some subs \<and> distinct (map sub_id subs)
        \<and> ia < length subs \<and> sub_id (subs ! ia) = sub_id sourceSubtask
        \<and> ib < length subs \<and> sub_id (subs ! ib) = sub_id targetSubtask"
  show "\<exists>subs' k.
            handleSubtaskDrop s targetTaskId targetSubtask =
              Inr (s\<lparr>tasks := (tasks s)[i := (tasks s ! i)\<lparr>subtasks := Some subs'\<rparr>],
                     db_calls := db_calls s @ [UpdateTask ((tasks s ! i)\<lparr>subtasks := Some subs'\<rparr>)],
                     dragOverInfo := None\<rparr>)
            \<and> mset subs' = mset subs
            \<and> filter (\<lambda>x. sub_id x \<noteq> sub_id sourceSubtask) subs'
                = filter (\<lambda>x. sub_id x \<noteq> sub_id sourceSubtask) subs
            \<and> Suc k < length subs'
            \<and> (if map_option snd (dragOverInfo s) = Some Top
                then subs' ! k = subs ! ia \<and> subs' ! Suc k = subs ! ib
                else subs' ! k = subs ! ib \<and> subs' ! Suc k = subs ! ia)"
    by (rule handleSubtaskDrop_adjacent) (use h in blast)+
qed

text \<open>
  Subtasks 1, 2, 3: dropping 1 before 3 gives 2, 1, 3.
\<close>

theorem handleSubtaskDrop_moves_adjacent_witness:
  "handleSubtaskDrop
      ((ex_state [ex_recurring False [ex_subtask 1 False, ex_subtask 2 False, ex_subtask 3 False]])
         \<lparr>draggedSubtaskRef := Some (''x'', ex_subtask 1 False), dragOverInfo := Some (3, Top)\<rparr>)
      ''x'' (ex_subtask 3 False)
    = Inr ((ex_state [ex_recurring False [ex_subtask 2 False, ex_subtask 1 False, ex_subtask 3 False]])
         \<lparr>draggedSubtaskRef := Some (''x'', ex_subtask 1 False),
          db_calls := [UpdateTask (ex_recurring False [ex_subtask 2 False, ex_subtask 1 False, ex_subtask 3 False])]\<rparr>)
   \<and> (\<exists>subs' k.
        handleSubtaskDrop
          ((ex_state [ex_recurring False [ex_subtask 1 False, ex_subtask 2 False, ex_subtask 3 False]])
             \<lparr>draggedSubtaskRef := Some (''x'', ex_subtask 1 False), dragOverInfo := Some (3, Top)\<rparr>)
          ''x'' (ex_subtask 3 False)
        = Inr ((ex_state [ex_recurring False subs'])
             \<lparr>draggedSubtaskRef := Some (''x'', ex_subtask 1 False),
              db_calls := [UpdateTask (ex_recurring False subs')]\<rparr>)
        \<and> mset subs' = mset [ex_subtask 1 False, ex_subtask 2 False, ex_subtask 3 False]
        \<and> Suc k < length subs'
        \<and> subs' ! k = ex_subtask 1 False \<and> subs' ! Suc k = ex_subtask 3 False)"
proof -
  let ?subs = "[ex_subtask 1 False, ex_subtask 2 False, ex_subtask 3 False]"
  let ?s = "(ex_state [ex_recurring False ?subs])
         \<lparr>draggedSubtaskRef := Some (''x'', ex_subtask 1 False), dragOverInfo := Some (3, Top)\<rparr>"
  have h: "draggedSubtaskRef ?s = Some (''x'', ex_subtask 1 False)
        \<and> sub_id (ex_subtask 1 False) \<noteq> sub_id (ex_subtask 3 False)
        \<and> distinct (map task_id (tasks ?s)) \<and> (0::nat) < length (tasks ?s)
        \<and> task_id (tasks ?s ! 0) = ''x''
        \<and> subtasks (tasks ?s ! 0) = Some ?subs \<and> distinct (map sub_id ?subs)
        \<and> (0::nat) < length ?subs \<and> sub_id (?subs ! 0) = sub_id (ex_subtask 1 False)
        \<and> (2::nat) < length ?subs \<and> sub_id (?subs ! 2) = sub_id (ex_subtask 3 False)"
    by (simp add: ex_state_def ex_recurring_def ex_subtask_def)
  have top: "map_option snd (dragOverInfo ?s) = Some Top" by (simp add: ex_state_def)
  have "\<exists>subs' k.
        handleSubtaskDrop ?s ''x'' (ex_subtask 3 False) =
          Inr (?s\<lparr>tasks := (tasks ?s)[0 := (tasks ?s ! 0)\<lparr>subtasks := Some subs'\<rparr>],
                 db_calls := db_calls ?s @ [UpdateTask ((tasks ?s ! 0)\<lparr>subtasks := Some subs'\<rparr>)],
                 dragOverInfo := None\<rparr>)
        \<and> mset subs' = mset ?subs
        \<and> filter (\<lambda>x. sub_id x \<noteq> sub_id (ex_subtask 1 False)) subs'
            = filter (\<lambda>x. sub_id x \<noteq> sub_id (ex_subtask 1 False)) ?subs
        \<and> Suc k < length subs'
        \<and> (if map_option snd (dragOverInfo ?s) = Some Top
            then subs' ! k = ?subs ! 0 \<and> subs' ! Suc k = ?subs ! 2
            else subs' ! k = ?subs ! 2 \<and> subs' ! Suc k = ?subs ! 0)"
    using handleSubtaskDrop_moves_adjacent[of ?s "''x''" "ex_subtask 3 False"] h by blast
  then obtain subs' k where
    a: "handleSubtaskDrop ?s ''x'' (ex_subtask 3 False) =
          Inr (?s\<lparr>tasks := (tasks ?s)[0 := (tasks ?s ! 0)\<lparr>subtasks := Some subs'\<rparr>],
                 db_calls := db_calls ?s @ [UpdateTask ((tasks ?s ! 0)\<lparr>subtasks := Some subs'\<rparr>)],
                 dragOverInfo := None\<rparr>)"
    and b: "mset subs' = mset ?subs" "Suc k < length subs'"
    and c: "if map_option snd (dragOverInfo ?s) = Some Top
            then subs' ! k = ?subs ! 0 \<and> subs' ! Suc k = ?subs ! 2
            else subs' ! k = ?subs ! 2 \<and> subs' ! Suc k = ?subs ! 0"
    by blast
  have c': "subs' ! k = ex_subtask 1 False" "subs' ! Suc k = ex_subtask 3 False"
    using c top by simp_all
  have a': "handleSubtaskDrop ?s ''x'' (ex_subtask 3 False)
        = Inr ((ex_state [ex_recurring False subs'])
             \<lparr>draggedSubtaskRef := Some (''x'', ex_subtask 1 False),
              db_calls := [UpdateTask (ex_recurring False subs')]\<rparr>)"
    unfolding a by (simp add: ex_state_def ex_recurring_def)
  have v: "handleSubtaskDrop ?s ''x'' (ex_subtask 3 False)
    = Inr ((ex_state [ex_recurring False [ex_subtask 2 False, ex_subtask 1 False, ex_subtask 3 False]])
         \<lparr>draggedSubtaskRef := Some (''x'', ex_subtask 1 False),
          db_calls := [UpdateTask (ex_recurring False [ex_subtask 2 False, ex_subtask 1 False, ex_subtask 3 False])]\<rparr>)"
    by code_simp
  show ?thesis using v a' b c' by blast
qed

section \<open>C7: the invariant of shopping list items\<close>

text \<open>
  Claim C7 fails on the code at one input. The pricing dialog is open for item 1 of a list
  whose items satisfy the invariant of the data model, and holds the quantity
  \<^verbatim>\<open>Infinity\<close> and the unit price \<^verbatim>\<open>0\<close>. Quantity and unit price pass the check of
  \<open>modalItemTotal\<close> (neither is \<^verbatim>\<open>NaN\<close>, the quantity is above 0, the price is not below
  0), and the total is their product, \<^verbatim>\<open>NaN\<close>. The guard of \<open>handleModalConfirm\<close> is
  \<^verbatim>\<open>modalItemTotal <= 0\<close>, which is false of \<^verbatim>\<open>NaN\<close>: the item is stored as completed
  with the total \<^verbatim>\<open>NaN\<close>, which equals no number, so that the item and the list break the
  invariant. This holds whatever the rounding of products is. On every other input the
  handlers keep the invariant (lemmas \<open>add_invariant\<close>, \<open>checkmark_invariant\<close>,
  \<open>confirm_invariant\<close>, \<open>delete_item_invariant\<close> and \<open>clear_invariant\<close>), pricing at 3 times
  2,50 gives the total 7.50 (lemma \<open>confirm_example\<close>), and reopening a completed item
  clears its three numbers (lemma \<open>reopen_clears\<close>).
\<close>

theorem handleModalConfirm_stores_NaN:
  "list_all (item_invariant to_double) (items ex_shop_infinity)
   \<and> modalItem ex_shop_infinity = Some (ex_item 1)
   \<and> quantity_field ex_shop_infinity = ''Infinity''
   \<and> unitPrice_field ex_shop_infinity = ''0''
   \<and> ex_parseFloat ''Infinity'' = PosInf
   \<and> ex_parseFloat ''0'' = Finite 0
   \<and> modalItemTotal to_double ex_parseFloat ex_shop_infinity = NaN
   \<and> items (handleModalConfirm to_double ex_parseFloat ex_shop_infinity)
      = [ex_item 2,
         (ex_item 1)\<lparr>item_completed := True, quantity := Some PosInf,
                      unitPrice := Some (Finite 0), totalPrice := Some NaN\<rparr>]
   \<and> \<not> item_invariant to_double
          ((ex_item 1)\<lparr>item_completed := True, quantity := Some PosInf,
                       unitPrice := Some (Finite 0), totalPrice := Some NaN\<rparr>)
   \<and> \<not> list_all (item_invariant to_double)
          (items (handleModalConfirm to_double ex_parseFloat ex_shop_infinity))"
proof -
  have q: "ex_parseFloat (replace_comma (quantity_field ex_shop_infinity)) = PosInf"
    "ex_parseFloat (replace_comma (unitPrice_field ex_shop_infinity)) = Finite 0"
    by (simp_all add: ex_shop_infinity_def ex_shop_def ex_parseFloat_def)
  have tot: "modalItemTotal to_double ex_parseFloat ex_shop_infinity = NaN"
    using q
    by (simp add: modalItemTotal_def Let_def isNaN_def js_less_def js_le_def js_eq_def
        js_mul_def js_sign_def)
  have v: "items (handleModalConfirm to_double ex_parseFloat ex_shop_infinity)
      = [ex_item 2,
         (ex_item 1)\<lparr>item_completed := True, quantity := Some PosInf,
                      unitPrice := Some (Finite 0), totalPrice := Some NaN\<rparr>]"
    using q tot
    by (simp add: handleModalConfirm_def Let_def js_le_zero_NaN ex_shop_infinity_def ex_shop_def
        ex_item_def)
  have b: "\<not> item_invariant to_double
          ((ex_item 1)\<lparr>item_completed := True, quantity := Some PosInf,
                       unitPrice := Some (Finite 0), totalPrice := Some NaN\<rparr>)"
    by (simp add: item_invariant_def js_eq_def)
  have a: "list_all (item_invariant to_double) (items ex_shop_infinity)"
    by (simp add: item_invariant_def ex_shop_infinity_def ex_shop_def ex_item_def)
  have e: "ex_parseFloat ''Infinity'' = PosInf" "ex_parseFloat ''0'' = Finite 0"
    by (simp_all add: ex_parseFloat_def)
  have m: "modalItem ex_shop_infinity = Some (ex_item 1)"
    "quantity_field ex_shop_infinity = ''Infinity''" "unitPrice_field ex_shop_infinity = ''0''"
    by (simp_all add: ex_shop_infinity_def ex_shop_def)
  show ?thesis unfolding v using a b e m tot by simp
qed

section \<open>C8: breaking a task down\<close>

text \<open>
  Claim C8, as amended. The operation changes neither the task list nor the store
  (it clears the open menu and the loading mark, nothing else) unless the response parses
  to an object whose \<^verbatim>\<open>subtasks\<close> is a non-empty array: so when the call fails, when the
  text is not JSON, when it parses to \<^verbatim>\<open>null\<close>, when the object has no \<^verbatim>\<open>subtasks\<close> and when
  that is a string. When \<^verbatim>\<open>subtasks\<close> is a non-empty array, whatever its elements are, the
  task is replaced by itself with one new subtask per element appended to its subtasks: the
  element as text, not completed, and as id the clock reading plus the index. The new ids
  are distinct from each other when the clock does not run backwards, and the ids of the
  task are then all distinct provided they were before and every id present is below the
  clock reading. The list is sorted again and the updated task handed to the store.
\<close>

theorem handleBreakdownTask_outcomes:
  "((\<forall>kvs xs. response = Parsed (JObj kvs) \<and> get_property kvs ''subtasks'' = Some (JArr xs)
        \<longrightarrow> xs = [])
      \<longrightarrow> handleBreakdownTask s task response now = s\<lparr>openMenuId := None, loadingTaskId := None\<rparr>
          \<and> tasks (handleBreakdownTask s task response now) = tasks s
          \<and> db_calls (handleBreakdownTask s task response now) = db_calls s)
   \<and> (response = TransportError \<or> response = ParseError \<or> response = Parsed JNull
        \<or> (\<exists>kvs. response = Parsed (JObj kvs) \<and> get_property kvs ''subtasks'' = None)
        \<or> (\<exists>kvs c. response = Parsed (JObj kvs) \<and> get_property kvs ''subtasks'' = Some (JStr c))
      \<longrightarrow> tasks (handleBreakdownTask s task response now) = tasks s
          \<and> db_calls (handleBreakdownTask s task response now) = db_calls s)
   \<and> (\<forall>kvs xs. response = Parsed (JObj kvs) \<and> get_property kvs ''subtasks'' = Some (JArr xs)
          \<and> xs \<noteq> []
      \<longrightarrow> (\<exists>new updated.
            updated = task\<lparr>subtasks := Some ((case subtasks task of Some old \<Rightarrow> old | None \<Rightarrow> []) @ new)\<rparr>
          \<and> tasks (handleBreakdownTask s task response now)
               = sortTasks (replace_task (task_id task) updated (tasks s))
          \<and> db_calls (handleBreakdownTask s task response now) = db_calls s @ [UpdateTask updated]
          \<and> length new = length xs
          \<and> (\<forall>i < length xs. new ! i =
                \<lparr>sub_id = now i + int i, sub_text = xs ! i, sub_completed = False\<rparr>)
          \<and> ((\<forall>i j. i \<le> j \<longrightarrow> now i \<le> now j) \<longrightarrow> distinct (map sub_id new))
          \<and> ((\<forall>i j. i \<le> j \<longrightarrow> now i \<le> now j)
              \<and> distinct (map sub_id (case subtasks task of Some old \<Rightarrow> old | None \<Rightarrow> []))
              \<and> (\<forall>st \<in> set (case subtasks task of Some old \<Rightarrow> old | None \<Rightarrow> []). sub_id st < now 0)
             \<longrightarrow> distinct (map sub_id ((case subtasks task of Some old \<Rightarrow> old | None \<Rightarrow> []) @ new)))))"
proof (intro conjI impI allI)
  assume a: "\<forall>kvs xs. response = Parsed (JObj kvs) \<and> get_property kvs ''subtasks'' = Some (JArr xs)
        \<longrightarrow> xs = []"
  show "handleBreakdownTask s task response now = s\<lparr>openMenuId := None, loadingTaskId := None\<rparr>"
    using a by (rule breakdown_unchanged)
  then show "tasks (handleBreakdownTask s task response now) = tasks s"
    "db_calls (handleBreakdownTask s task response now) = db_calls s"
    by simp_all
next
  assume b: "response = TransportError \<or> response = ParseError \<or> response = Parsed JNull
        \<or> (\<exists>kvs. response = Parsed (JObj kvs) \<and> get_property kvs ''subtasks'' = None)
        \<or> (\<exists>kvs c. response = Parsed (JObj kvs) \<and> get_property kvs ''subtasks'' = Some (JStr c))"
  then have "\<forall>kvs xs. response = Parsed (JObj kvs) \<and> get_property kvs ''subtasks'' = Some (JArr xs)
        \<longrightarrow> xs = []"
    by auto
  then have "handleBreakdownTask s task response now = s\<lparr>openMenuId := None, loadingTaskId := None\<rparr>"
    by (rule breakdown_unchanged)
  then show "tasks (handleBreakdownTask s task response now) = tasks s"
    "db_calls (handleBreakdownTask s task response now) = db_calls s"
    by simp_all
next
  fix kvs xs
  assume c: "response = Parsed (JObj kvs) \<and> get_property kvs ''subtasks'' = Some (JArr xs) \<and> xs \<noteq> []"
  let ?new = "newSubtasks now xs"
  let ?u = "task\<lparr>subtasks := Some ((case subtasks task of Some old \<Rightarrow> old | None \<Rightarrow> []) @ ?new)\<rparr>"
  have e: "handleBreakdownTask s task response now =
     s\<lparr>openMenuId := None, loadingTaskId := None,
       tasks := sortTasks (replace_task (task_id task) ?u (tasks s)),
       db_calls := db_calls s @ [UpdateTask ?u]\<rparr>"
    using c breakdown_appends by blast
  have 1: "tasks (handleBreakdownTask s task response now)
               = sortTasks (replace_task (task_id task) ?u (tasks s))"
    and 2: "db_calls (handleBreakdownTask s task response now) = db_calls s @ [UpdateTask ?u]"
    unfolding e by simp_all
  have 3: "length ?new = length xs" by (rule newSubtasks_length)
  have 4: "\<forall>i < length xs. ?new ! i =
                \<lparr>sub_id = now i + int i, sub_text = xs ! i, sub_completed = False\<rparr>"
    using newSubtasks_nth by blast
  have 5: "(\<forall>i j. i \<le> j \<longrightarrow> now i \<le> now j) \<longrightarrow> distinct (map sub_id ?new)"
    using newSubtasks_distinct[of now xs] by blast
  have 6: "(\<forall>i j. i \<le> j \<longrightarrow> now i \<le> now j)
              \<and> distinct (map sub_id (case subtasks task of Some old \<Rightarrow> old | None \<Rightarrow> []))
              \<and> (\<forall>st \<in> set (case subtasks task of Some old \<Rightarrow> old | None \<Rightarrow> []). sub_id st < now 0)
             \<longrightarrow> distinct (map sub_id ((case subtasks task of Some old \<Rightarrow> old | None \<Rightarrow> []) @ ?new))"
    using newSubtasks_distinct_append[of now "case subtasks task of Some old \<Rightarrow> old | None \<Rightarrow> []" xs]
    by blast
  show "\<exists>new updated.
            updated = task\<lparr>subtasks := Some ((case subtasks task of Some old \<Rightarrow> old | None \<Rightarrow> []) @ new)\<rparr>
          \<and> tasks (handleBreakdownTask s task response now)
               = sortTasks (replace_task (task_id task) updated (tasks s))
          \<and> db_calls (handleBreakdownTask s task response now) = db_calls s @ [UpdateTask updated]
          \<and> length new = length xs
          \<and> (\<forall>i < length xs. new ! i =
                \<lparr>sub_id = now i + int i, sub_text = xs ! i, sub_completed = False\<rparr>)
          \<and> ((\<forall>i j. i \<le> j \<longrightarrow> now i \<le> now j) \<longrightarrow> distinct (map sub_id new))
          \<and> ((\<forall>i j. i \<le> j \<longrightarrow> now i \<le> now j)
              \<and> distinct (map sub_id (case subtasks task of Some old \<Rightarrow> old | None \<Rightarrow> []))
              \<and> (\<forall>st \<in> set (case subtasks task of Some old \<Rightarrow> old | None \<Rightarrow> []). sub_id st < now 0)
             \<longrightarrow> distinct (map sub_id ((case subtasks task of Some old \<Rightarrow> old | None \<Rightarrow> []) @ new)))"
    using 1 2 3 4 5 6 by blast
qed

text \<open>
  A failed call, and a response with two subtasks.
\<close>

theorem handleBreakdownTask_outcomes_witness:
  "tasks (handleBreakdownTask (ex_state [ex_task ''a'' False None]) (ex_task ''a'' False None)
        TransportError (\<lambda>i. 1000)) = tasks (ex_state [ex_task ''a'' False None])
   \<and> db_calls (handleBreakdownTask (ex_state [ex_task ''a'' False None]) (ex_task ''a'' False None)
        TransportError (\<lambda>i. 1000)) = []
   \<and> get_property [(''subtasks'', JArr [JStr ''buy'', JStr ''cook''])] ''subtasks''
        = Some (JArr [JStr ''buy'', JStr ''cook''])
   \<and> tasks (handleBreakdownTask (ex_state [ex_task ''a'' False None]) (ex_task ''a'' False None)
        (Parsed (JObj [(''subtasks'', JArr [JStr ''buy'', JStr ''cook''])])) (\<lambda>i. 1000))
      = [(ex_task ''a'' False None)\<lparr>subtasks := Some
           [\<lparr>sub_id = 1000, sub_text = JStr ''buy'', sub_completed = False\<rparr>,
            \<lparr>sub_id = 1001, sub_text = JStr ''cook'', sub_completed = False\<rparr>]\<rparr>]
   \<and> (\<exists>new. length new = 2 \<and> distinct (map sub_id new)
        \<and> db_calls (handleBreakdownTask (ex_state [ex_task ''a'' False None]) (ex_task ''a'' False None)
            (Parsed (JObj [(''subtasks'', JArr [JStr ''buy'', JStr ''cook''])])) (\<lambda>i. 1000))
          = [UpdateTask ((ex_task ''a'' False None)\<lparr>subtasks := Some new\<rparr>)])"
proof -
  let ?s = "ex_state [ex_task ''a'' False None]"
  let ?t = "ex_task ''a'' False None"
  let ?xs = "[JStr ''buy'', JStr ''cook'']"
  let ?kvs = "[(''subtasks'', JArr ?xs)]"
  let ?now = "\<lambda>i::nat. 1000::int"
  note t = handleBreakdownTask_outcomes[of _ ?s ?t ?now]
  have r1: "tasks (handleBreakdownTask ?s ?t TransportError ?now) = tasks ?s"
    "db_calls (handleBreakdownTask ?s ?t TransportError ?now) = db_calls ?s"
    using t[of TransportError] by blast+
  have r1': "db_calls (handleBreakdownTask ?s ?t TransportError ?now) = []"
    using r1(2) by (simp add: ex_state_def)
  have g: "get_property ?kvs ''subtasks'' = Some (JArr ?xs)" by (simp add: get_property_def)
  have mono: "\<forall>i j. i \<le> j \<longrightarrow> ?now i \<le> ?now j" by simp
  have g3: "get_property ?kvs ''subtasks'' = Some (JArr ?xs) \<and> ?xs \<noteq> []" using g by simp
  note t3 = t[of "Parsed (JObj ?kvs)", THEN conjunct2, THEN conjunct2, rule_format, of ?kvs ?xs,
      OF conjI, OF refl g3]
  obtain new updated where
    u: "updated = ?t\<lparr>subtasks := Some ((case subtasks ?t of Some old \<Rightarrow> old | None \<Rightarrow> []) @ new)\<rparr>"
    and d: "db_calls (handleBreakdownTask ?s ?t (Parsed (JObj ?kvs)) ?now) = db_calls ?s @ [UpdateTask updated]"
    and l: "length new = length ?xs"
    and dist: "(\<forall>i j. i \<le> j \<longrightarrow> ?now i \<le> ?now j) \<longrightarrow> distinct (map sub_id new)"
    using t3 by blast
  have r2: "length new = 2" "distinct (map sub_id new)"
    "db_calls (handleBreakdownTask ?s ?t (Parsed (JObj ?kvs)) ?now)
       = [UpdateTask (?t\<lparr>subtasks := Some new\<rparr>)]"
  proof -
    show "length new = 2" using l by simp
    show "distinct (map sub_id new)" using dist mono by blast
    have "subtasks ?t = Some []" by (simp add: ex_task_def)
    then have "updated = ?t\<lparr>subtasks := Some new\<rparr>" using u by simp
    moreover have "db_calls ?s = []" by (simp add: ex_state_def)
    ultimately show "db_calls (handleBreakdownTask ?s ?t (Parsed (JObj ?kvs)) ?now)
       = [UpdateTask (?t\<lparr>subtasks := Some new\<rparr>)]" using d by simp
  qed
  have v: "tasks (handleBreakdownTask ?s ?t (Parsed (JObj ?kvs)) ?now)
      = [?t\<lparr>subtasks := Some
           [\<lparr>sub_id = 1000, sub_text = JStr ''buy'', sub_completed = False\<rparr>,
            \<lparr>sub_id = 1001, sub_text = JStr ''cook'', sub_completed = False\<rparr>]\<rparr>]"
    by code_simp
  show ?thesis using r1(1) r1' g v r2 by blast
qed

text \<open>
  C8 as stated fails twice. A response whose \<^verbatim>\<open>subtasks\<close> is an array holding a number
  does not have the shape asked for, and yet changes the task. And the id of a new subtask
  may be the id of a subtask the task has already: the ids are clock readings and are not
  compared with those present.
\<close>

theorem handleBreakdownTask_counterexample:
  "\<not> matches_schema (JObj [(''subtasks'', JArr [JNum 1])])
   \<and> tasks (handleBreakdownTask (ex_state [ex_task ''a'' False None]) (ex_task ''a'' False None)
        (Parsed (JObj [(''subtasks'', JArr [JNum 1])])) (\<lambda>i. 1000))
      = [(ex_task ''a'' False None)\<lparr>subtasks := Some
           [\<lparr>sub_id = 1000, sub_text = JNum 1, sub_completed = False\<rparr>]\<rparr>]
   \<and> tasks (handleBreakdownTask (ex_state [ex_task ''a'' False None]) (ex_task ''a'' False None)
        (Parsed (JObj [(''subtasks'', JArr [JNum 1])])) (\<lambda>i. 1000))
      \<noteq> tasks (ex_state [ex_task ''a'' False None])
   \<and> matches_schema (JObj [(''subtasks'', JArr [JStr ''buy''])])
   \<and> tasks (handleBreakdownTask
        (ex_state [(ex_task ''a'' False None)\<lparr>subtasks := Some [ex_subtask 1000 False]\<rparr>])
        ((ex_task ''a'' False None)\<lparr>subtasks := Some [ex_subtask 1000 False]\<rparr>)
        (Parsed (JObj [(''subtasks'', JArr [JStr ''buy''])])) (\<lambda>i. 1000))
      = [(ex_task ''a'' False None)\<lparr>subtasks := Some
           [ex_subtask 1000 False,
            \<lparr>sub_id = 1000, sub_text = JStr ''buy'', sub_completed = False\<rparr>]\<rparr>]"
  by code_simp

section \<open>C9: deleting a task\<close>

text \<open>
  Claim C9. After deleting the id \<open>i\<close> no task of the list has that id, and the list is
  the list before without the tasks of that id, the others unchanged and in their order;
  where ids are distinct and the task of id \<open>i\<close> is at index \<open>k\<close>, exactly the element at \<open>k\<close>
  is gone. If \<open>i\<close> was the focused task, the focus is cleared and no task is focused;
  otherwise the focus is as before. The deletion is handed to the store.
\<close>

theorem handleDeleteTask_removes_and_unfocuses:
  "(\<forall>t \<in> set (tasks (handleDeleteTask s i)). task_id t \<noteq> i)
   \<and> tasks (handleDeleteTask s i) = filter (\<lambda>t. task_id t \<noteq> i) (tasks s)
   \<and> (\<forall>k. distinct (map task_id (tasks s)) \<and> k < length (tasks s) \<and> task_id (tasks s ! k) = i
          \<longrightarrow> tasks (handleDeleteTask s i) = take k (tasks s) @ drop (Suc k) (tasks s))
   \<and> (focusedTaskId s = Some i \<longrightarrow>
          focusedTaskId (handleDeleteTask s i) = None \<and> focusedTask (handleDeleteTask s i) = None)
   \<and> (focusedTaskId s \<noteq> Some i \<longrightarrow> focusedTaskId (handleDeleteTask s i) = focusedTaskId s)
   \<and> db_calls (handleDeleteTask s i) = db_calls s @ [DeleteTask i]"
proof -
  have a: "tasks (handleDeleteTask s i) = filter (\<lambda>t. task_id t \<noteq> i) (tasks s)"
    by (simp add: handleDeleteTask_def)
  have b: "\<forall>t \<in> set (tasks (handleDeleteTask s i)). task_id t \<noteq> i"
    unfolding a by simp
  have c: "\<forall>k. distinct (map task_id (tasks s)) \<and> k < length (tasks s) \<and> task_id (tasks s ! k) = i
          \<longrightarrow> tasks (handleDeleteTask s i) = take k (tasks s) @ drop (Suc k) (tasks s)"
    unfolding a using filter_remove_nth[of task_id "tasks s"] by blast
  have d: "focusedTaskId s = Some i \<longrightarrow>
          focusedTaskId (handleDeleteTask s i) = None \<and> focusedTask (handleDeleteTask s i) = None"
    by (simp add: handleDeleteTask_def focusedTask_def find_None_iff2)
  have e: "focusedTaskId s \<noteq> Some i \<longrightarrow> focusedTaskId (handleDeleteTask s i) = focusedTaskId s"
    by (simp add: handleDeleteTask_def)
  have f: "db_calls (handleDeleteTask s i) = db_calls s @ [DeleteTask i]"
    by (simp add: handleDeleteTask_def)
  show ?thesis using a b c d e f by blast
qed

text \<open>
  Two tasks with the focus on the second: deleting the second clears the focus,
  deleting the first keeps it.
\<close>

theorem handleDeleteTask_witness:
  "focusedTaskId ((ex_state [ex_task ''a'' False None, ex_task ''b'' False None])\<lparr>focusedTaskId := Some ''b''\<rparr>)
      = Some ''b''
   \<and> focusedTaskId (handleDeleteTask
        ((ex_state [ex_task ''a'' False None, ex_task ''b'' False None])\<lparr>focusedTaskId := Some ''b''\<rparr>) ''b'')
      = None
   \<and> focusedTask (handleDeleteTask
        ((ex_state [ex_task ''a'' False None, ex_task ''b'' False None])\<lparr>focusedTaskId := Some ''b''\<rparr>) ''b'')
      = None
   \<and> tasks (handleDeleteTask
        ((ex_state [ex_task ''a'' False None, ex_task ''b'' False None])\<lparr>focusedTaskId := Some ''b''\<rparr>) ''b'')
      = [ex_task ''a'' False None]
   \<and> focusedTaskId (handleDeleteTask
        ((ex_state [ex_task ''a'' False None, ex_task ''b'' False None])\<lparr>focusedTaskId := Some ''b''\<rparr>) ''a'')
      = Some ''b''"
proof -
  let ?s = "(ex_state [ex_task ''a'' False None, ex_task ''b'' False None])\<lparr>focusedTaskId := Some ''b''\<rparr>"
  have h1: "focusedTaskId ?s = Some ''b''" by (simp add: ex_state_def)
  have h2: "focusedTaskId ?s \<noteq> Some ''a''" by (simp add: ex_state_def)
  have h3: "distinct (map task_id (tasks ?s)) \<and> (1::nat) < length (tasks ?s) \<and> task_id (tasks ?s ! 1) = ''b''"
    by (simp add: ex_state_def ex_task_def)
  have e: "take 1 (tasks ?s) @ drop (Suc 1) (tasks ?s) = [ex_task ''a'' False None]"
    by (simp add: ex_state_def)
  have r1: "focusedTaskId (handleDeleteTask ?s ''b'') = None" "focusedTask (handleDeleteTask ?s ''b'') = None"
    using handleDeleteTask_removes_and_unfocuses[of ?s "''b''"] h1 by blast+
  have "tasks (handleDeleteTask ?s ''b'') = take 1 (tasks ?s) @ drop (Suc 1) (tasks ?s)"
    using handleDeleteTask_removes_and_unfocuses[of ?s "''b''"] h3 by blast
  then have r2: "tasks (handleDeleteTask ?s ''b'') = [ex_task ''a'' False None]"
    unfolding e .
  have "focusedTaskId (handleDeleteTask ?s ''a'') = focusedTaskId ?s"
    using handleDeleteTask_removes_and_unfocuses[of ?s "''a''"] h2 by blast
  then have r3: "focusedTaskId (handleDeleteTask ?s ''a'') = Some ''b''" using h1 by simp
  show ?thesis using h1 r1 r2 r3 by blast
qed

section \<open>C10: a recurring task is never left completed\<close>

text \<open>
  Claim C10. When no recurring task of the list is completed, the same holds after saving
  the form (creating or editing), after toggling a subtask, after deleting, after breaking
  down a task that satisfies the invariant itself, and after a drop that is carried out.
  Toggling the completion of a task needs less: when the tasks of the other ids satisfy the
  invariant, every task does after the toggle, whether the toggled task was a completed
  recurring task or not. Then, with no assumption on the list: saving the form with a text
  that is not blank and no task being edited creates a task that is not completed, puts it
  into the list when the store accepts it, and hands the store data that say so; saving an
  edit that marks the task recurring leaves every task of its id recurring and not
  completed, such a task is in the list when one of that id was, and the task handed to
  the store is recurring and not completed; and toggling a recurring task, completed or
  not, leaves every task of its id recurring and not completed, such a task is in the list
  when one of that id was, and the task handed to the store is recurring and not completed.
\<close>

theorem recurring_tasks_stay_active:
  "(all_recurring_active (tasks s) \<longrightarrow>
        all_recurring_active (tasks (handleSaveTask s added))
      \<and> all_recurring_active (tasks (handleToggleSubtask s taskId subtaskId))
      \<and> all_recurring_active (tasks (handleDeleteTask s i))
      \<and> (recurring_active task \<longrightarrow>
           all_recurring_active (tasks (handleBreakdownTask s task response now)))
      \<and> (\<forall>s'. handleSubtaskDrop s targetTaskId targetSubtask = Inr s' \<longrightarrow>
           all_recurring_active (tasks s')))
   \<and> ((\<forall>t \<in> set (tasks s). task_id t \<noteq> task_id task \<longrightarrow> recurring_active t) \<longrightarrow>
        all_recurring_active (tasks (handleToggleTask tz s task today)))
   \<and> (editingTask s = None \<and> trim (formText s) \<noteq> [] \<longrightarrow>
        (\<exists>d. \<not> new_completed d \<and> \<not> completed (addTask d new_id)
           \<and> addTask d new_id \<in> set (tasks (handleSaveTask s (Some new_id)))
           \<and> last (db_calls (handleSaveTask s (Some new_id))) = AddTask d
           \<and> last (db_calls (handleSaveTask s None)) = AddTask d
           \<and> tasks (handleSaveTask s None) = tasks s))
   \<and> (\<forall>e. editingTask s = Some e \<and> trim (formText s) \<noteq> [] \<and> formIsRecurring s \<longrightarrow>
        (\<forall>t \<in> set (tasks (handleSaveTask s added)). task_id t = task_id e \<longrightarrow>
           \<not> completed t \<and> recurring t = Some (formRecurrenceFrequency s))
        \<and> ((\<exists>x \<in> set (tasks s). task_id x = task_id e) \<longrightarrow>
             (\<exists>t \<in> set (tasks (handleSaveTask s added)). task_id t = task_id e))
        \<and> (\<exists>u. last (db_calls (handleSaveTask s added)) = UpdateTask u
             \<and> \<not> completed u \<and> recurring u = Some (formRecurrenceFrequency s)))
   \<and> (recurring task \<noteq> None \<longrightarrow>
        (\<forall>t \<in> set (tasks (handleToggleTask tz s task today)). task_id t = task_id task \<longrightarrow>
           \<not> completed t \<and> recurring t = recurring task)
        \<and> ((\<exists>x \<in> set (tasks s). task_id x = task_id task) \<longrightarrow>
             (\<exists>t \<in> set (tasks (handleToggleTask tz s task today)). task_id t = task_id task))
        \<and> (\<exists>u. last (db_calls (handleToggleTask tz s task today)) = UpdateTask u
             \<and> \<not> completed u \<and> recurring u = recurring task))"
proof -
  have a: "all_recurring_active (tasks s) \<longrightarrow>
        all_recurring_active (tasks (handleSaveTask s added))
      \<and> all_recurring_active (tasks (handleToggleSubtask s taskId subtaskId))
      \<and> all_recurring_active (tasks (handleDeleteTask s i))
      \<and> (recurring_active task \<longrightarrow>
           all_recurring_active (tasks (handleBreakdownTask s task response now)))
      \<and> (\<forall>s'. handleSubtaskDrop s targetTaskId targetSubtask = Inr s' \<longrightarrow>
           all_recurring_active (tasks s'))"
    using save_active[of s added] toggle_subtask_active[of s taskId subtaskId]
      delete_active[of s i] breakdown_active[of s task response now]
      drop_active[of s targetTaskId targetSubtask]
    by blast
  have b: "(\<forall>t \<in> set (tasks s). task_id t \<noteq> task_id task \<longrightarrow> recurring_active t) \<longrightarrow>
        all_recurring_active (tasks (handleToggleTask tz s task today))"
    using toggle_restores[of s task tz today] by blast
  have c: "editingTask s = None \<and> trim (formText s) \<noteq> [] \<longrightarrow>
        (\<exists>d. \<not> new_completed d \<and> \<not> completed (addTask d new_id)
           \<and> addTask d new_id \<in> set (tasks (handleSaveTask s (Some new_id)))
           \<and> last (db_calls (handleSaveTask s (Some new_id))) = AddTask d
           \<and> last (db_calls (handleSaveTask s None)) = AddTask d
           \<and> tasks (handleSaveTask s None) = tasks s)"
    using create_incomplete[of s new_id] by blast
  have d: "\<forall>e. editingTask s = Some e \<and> trim (formText s) \<noteq> [] \<and> formIsRecurring s \<longrightarrow>
        (\<forall>t \<in> set (tasks (handleSaveTask s added)). task_id t = task_id e \<longrightarrow>
           \<not> completed t \<and> recurring t = Some (formRecurrenceFrequency s))
        \<and> ((\<exists>x \<in> set (tasks s). task_id x = task_id e) \<longrightarrow>
             (\<exists>t \<in> set (tasks (handleSaveTask s added)). task_id t = task_id e))
        \<and> (\<exists>u. last (db_calls (handleSaveTask s added)) = UpdateTask u
             \<and> \<not> completed u \<and> recurring u = Some (formRecurrenceFrequency s))"
    using edit_recurring[of s _ added] by (intro allI impI) simp
  have e: "recurring task \<noteq> None \<longrightarrow>
        (\<forall>t \<in> set (tasks (handleToggleTask tz s task today)). task_id t = task_id task \<longrightarrow>
           \<not> completed t \<and> recurring t = recurring task)
        \<and> ((\<exists>x \<in> set (tasks s). task_id x = task_id task) \<longrightarrow>
             (\<exists>t \<in> set (tasks (handleToggleTask tz s task today)). task_id t = task_id task))
        \<and> (\<exists>u. last (db_calls (handleToggleTask tz s task today)) = UpdateTask u
             \<and> \<not> completed u \<and> recurring u = recurring task)"
    using toggle_recurring[of task tz s today] by (intro impI) simp
  show ?thesis by (intro conjI) (rule a b c d e)+
qed

text \<open>
  A list that holds a completed recurring task, the state the claim names, beside a task
  of another id. The list breaks the invariant; toggling its completed recurring task gives
  a list that satisfies it, in which that task is recurring and not completed. A form with
  the text \<open>rent\<close> creates a task that is not completed, and a form whose text is a
  no-break space and an ideographic space is blank and creates nothing.
\<close>

theorem recurring_tasks_stay_active_witness:
  "\<not> all_recurring_active (tasks (ex_state [ex_task ''a'' False None, ex_recurring True []]))
   \<and> recurring (ex_recurring True []) \<noteq> None
   \<and> all_recurring_active (tasks (handleToggleTask utc_zone
        (ex_state [ex_task ''a'' False None, ex_recurring True []]) (ex_recurring True []) ''2024-06-01''))
   \<and> tasks (handleToggleTask utc_zone
        (ex_state [ex_task ''a'' False None, ex_recurring True []]) (ex_recurring True []) ''2024-06-01'')
      = [ex_recurring False [], ex_task ''a'' False None]
   \<and> db_calls (handleToggleTask utc_zone
        (ex_state [ex_task ''a'' False None, ex_recurring True []]) (ex_recurring True []) ''2024-06-01'')
      = [UpdateTask (ex_recurring False [])]
   \<and> trim (formText ((ex_state [])\<lparr>formText := units ''rent''\<rparr>)) \<noteq> []
   \<and> tasks (handleSaveTask ((ex_state [])\<lparr>formText := units ''rent''\<rparr>) (Some ''n''))
      = [(ex_task ''n'' False None)\<lparr>task_text := units ''rent''\<rparr>]
   \<and> trim (formText ((ex_state [])\<lparr>formText := [0xA0, 0x3000]\<rparr>)) = []
   \<and> handleSaveTask ((ex_state [])\<lparr>formText := [0xA0, 0x3000]\<rparr>) (Some ''n'')
      = (ex_state [])\<lparr>formText := [0xA0, 0x3000]\<rparr>"
proof -
  let ?s = "ex_state [ex_task ''a'' False None, ex_recurring True []]"
  let ?t = "ex_recurring True []"
  let ?f = "(ex_state [])\<lparr>formText := units ''rent''\<rparr>"
  have n: "\<not> all_recurring_active (tasks ?s)"
    by (simp add: all_recurring_active_def recurring_active_def ex_state_def ex_recurring_def)
  have h1: "\<forall>t \<in> set (tasks ?s). task_id t \<noteq> task_id ?t \<longrightarrow> recurring_active t"
    by (simp add: recurring_active_def ex_state_def ex_recurring_def ex_task_def)
  have h2: "recurring ?t \<noteq> None" by (simp add: ex_recurring_def)
  have h3: "editingTask ?f = None \<and> trim (formText ?f) \<noteq> []" by code_simp
  note t = recurring_tasks_stay_active[of ?s _ _ _ _ ?t _ _ _ _ utc_zone "''2024-06-01''"]
  have r: "all_recurring_active (tasks (handleToggleTask utc_zone ?s ?t ''2024-06-01''))"
    using t[THEN conjunct2, THEN conjunct1] h1 by blast
  have v: "tasks (handleToggleTask utc_zone ?s ?t ''2024-06-01'')
      = [ex_recurring False [], ex_task ''a'' False None]"
    by code_simp
  have w: "db_calls (handleToggleTask utc_zone ?s ?t ''2024-06-01'') = [UpdateTask (ex_recurring False [])]"
    by code_simp
  have c: "tasks (handleSaveTask ?f (Some ''n'')) = [(ex_task ''n'' False None)\<lparr>task_text := units ''rent''\<rparr>]"
    by code_simp
  have b1: "trim (formText ((ex_state [])\<lparr>formText := [0xA0, 0x3000]\<rparr>)) = []" by code_simp
  have b2: "handleSaveTask ((ex_state [])\<lparr>formText := [0xA0, 0x3000]\<rparr>) (Some ''n'')
      = (ex_state [])\<lparr>formText := [0xA0, 0x3000]\<rparr>"
    using b1 by (simp add: handleSaveTask_def)
  show ?thesis using n h2 h3 r v w c b1 b2 by blast
qed

end
